theory Spec2Isabelle
  imports Main "HOL-Library.Word" "HOL-Library.Monad_Syntax"
begin

unbundle bit_operations_syntax

section \<open>Errors and the byte cursor\<close>

text \<open>
  Every \<^verbatim>\<open>throw\<close> of \<^verbatim>\<open>mod.ts\<close> is a value of \<open>error\<close>; a function that may throw
  returns \<open>error + 'a\<close>. The messages that the source formats with the offending value
  (\<^verbatim>\<open>Unknown opcode 0x..\<close>) carry that value as an argument. The two cursor errors are
  the ones the cursor raises when a read or a write passes the end of its buffer, and
  \<open>ReadUnderflowError\<close> is raised by \<^verbatim>\<open>Readable.readFromBytesOrThrow\<close> when bytes are left.
\<close>

type_synonym byte = "8 word"

datatype error =
    InvalidMagicNumber
  | UnsupportedVersion
  | ValueExceedsRange string
  | UnknownTypeKind byte
  | UnknownImport byte
  | UnknownElementSegmentFlag byte
  | UnknownDataSegmentFlag byte
  | UnknownOpcode byte
  | UnknownSubOpcode int
  | CursorReadOverflowError
  | CursorWriteOverflowError
  | ReadUnderflowError
  | WriteUnderflowError

definition andThen :: "error + 'a \<Rightarrow> ('a \<Rightarrow> error + 'b) \<Rightarrow> error + 'b" where
  "andThen m f = (case m of Inl e \<Rightarrow> Inl e | Inr x \<Rightarrow> f x)"

text \<open>
  Modelled from the spec: the cursor (\<^verbatim>\<open>@hazae41/cursor\<close>) is imported by \<^verbatim>\<open>mod.ts\<close> and is
  not part of the sources; section 6 of the specification names its operations. A cursor
  is a byte buffer with an offset. The model keeps the bytes in front of the offset
  (\<open>before\<close>) and the bytes from the offset on (\<open>after\<close>): the offset is
  \<open>length (before c)\<close>, \<^verbatim>\<open>remaining\<close> is \<open>length (after c)\<close>. A read returns the next bytes
  and moves them to \<open>before\<close>; a write overwrites the next bytes; both fail when fewer bytes
  remain than are asked for.
\<close>

record cursor =
  before :: "byte list"
  after :: "byte list"

definition Cursor :: "byte list \<Rightarrow> cursor" where
  "Cursor bytes = \<lparr>before = [], after = bytes\<rparr>"

definition remaining :: "cursor \<Rightarrow> nat" where
  "remaining c = length (after c)"

definition readOrThrow :: "cursor \<Rightarrow> nat \<Rightarrow> error + (byte list \<times> cursor)" where
  "readOrThrow c n =
     (if remaining c < n then Inl CursorReadOverflowError
      else Inr (take n (after c), \<lparr>before = before c @ take n (after c), after = drop n (after c)\<rparr>))"

definition writeOrThrow :: "cursor \<Rightarrow> byte list \<Rightarrow> error + cursor" where
  "writeOrThrow c bs =
     (if remaining c < length bs then Inl CursorWriteOverflowError
      else Inr \<lparr>before = before c @ bs, after = drop (length bs) (after c)\<rparr>)"

definition readUint8OrThrow :: "cursor \<Rightarrow> error + (byte \<times> cursor)" where
  "readUint8OrThrow c =
     (case after c of
        [] \<Rightarrow> Inl CursorReadOverflowError
      | x # xs \<Rightarrow> Inr (x, \<lparr>before = before c @ [x], after = xs\<rparr>))"

definition writeUint8OrThrow :: "cursor \<Rightarrow> byte \<Rightarrow> error + cursor" where
  "writeUint8OrThrow c x =
     (case after c of
        [] \<Rightarrow> Inl CursorWriteOverflowError
      | _ # xs \<Rightarrow> Inr \<lparr>before = before c @ [x], after = xs\<rparr>)"

text \<open>Little-endian 32-bit reads and writes; a written number is taken modulo \<open>2 ^ 32\<close>.\<close>

definition le32 :: "int \<Rightarrow> byte list" where
  "le32 v = [word_of_int v, word_of_int (drop_bit 8 v),
             word_of_int (drop_bit 16 v), word_of_int (drop_bit 24 v)]"

definition readUint32OrThrow :: "cursor \<Rightarrow> error + (int \<times> cursor)" where
  "readUint32OrThrow c =
     (case after c of
        b0 # b1 # b2 # b3 # xs \<Rightarrow>
          Inr (uint b0 + push_bit 8 (uint b1) + push_bit 16 (uint b2) + push_bit 24 (uint b3),
               \<lparr>before = before c @ [b0, b1, b2, b3], after = xs\<rparr>)
      | _ \<Rightarrow> Inl CursorReadOverflowError)"

definition writeUint32OrThrow :: "cursor \<Rightarrow> int \<Rightarrow> error + cursor" where
  "writeUint32OrThrow c v = writeOrThrow c (le32 v)"

text \<open>
  Modelled from the spec: floats are not computed with anywhere in \<^verbatim>\<open>mod.ts\<close>; \<^verbatim>\<open>F32\<close> and
  \<^verbatim>\<open>F64\<close> hand the number to the cursor and take it back. Section 4.2 of the specification
  fixes them as little-endian bit patterns of 4 and 8 bytes that round-trip exactly, so a
  float value is kept as the bytes of its bit pattern, in the order they stand in the
  buffer.
\<close>

type_synonym f32 = "byte \<times> byte \<times> byte \<times> byte"
type_synonym f64 = "f32 \<times> f32"

definition f32_bytes :: "f32 \<Rightarrow> byte list" where
  "f32_bytes x = (case x of (b0, b1, b2, b3) \<Rightarrow> [b0, b1, b2, b3])"

definition f64_bytes :: "f64 \<Rightarrow> byte list" where
  "f64_bytes x = (case x of (lo, hi) \<Rightarrow> f32_bytes lo @ f32_bytes hi)"

definition readFloat32OrThrow :: "cursor \<Rightarrow> error + (f32 \<times> cursor)" where
  "readFloat32OrThrow c =
     (case after c of
        b0 # b1 # b2 # b3 # xs \<Rightarrow>
          Inr ((b0, b1, b2, b3), \<lparr>before = before c @ [b0, b1, b2, b3], after = xs\<rparr>)
      | _ \<Rightarrow> Inl CursorReadOverflowError)"

definition readFloat64OrThrow :: "cursor \<Rightarrow> error + (f64 \<times> cursor)" where
  "readFloat64OrThrow c =
     (case after c of
        b0 # b1 # b2 # b3 # b4 # b5 # b6 # b7 # xs \<Rightarrow>
          Inr (((b0, b1, b2, b3), (b4, b5, b6, b7)),
               \<lparr>before = before c @ [b0, b1, b2, b3, b4, b5, b6, b7], after = xs\<rparr>)
      | _ \<Rightarrow> Inl CursorReadOverflowError)"

definition writeFloat32OrThrow :: "cursor \<Rightarrow> f32 \<Rightarrow> error + cursor" where
  "writeFloat32OrThrow c x = writeOrThrow c (f32_bytes x)"

definition writeFloat64OrThrow :: "cursor \<Rightarrow> f64 \<Rightarrow> error + cursor" where
  "writeFloat64OrThrow c x = writeOrThrow c (f64_bytes x)"

section \<open>LEB128\<close>

text \<open>
  \<^verbatim>\<open>Number(value)\<close> of a BigInt is the nearest double, ties to even. Every double of
  magnitude \<open>2 ^ 53\<close> or more is an integer, so the result is again an integer: the
  magnitude keeps its 53 leading bits, rounded. \<^verbatim>\<open>BigInt(this.value)\<close> of an
  integer-valued number is exact; the number fields of the model are \<open>int\<close>, which leaves
  out the non-integral numbers on which \<^verbatim>\<open>BigInt\<close> throws.
\<close>

function bit_length :: "int \<Rightarrow> nat" where
  "bit_length n = (if n \<le> 0 then 0 else Suc (bit_length (n div 2)))"
  by pat_completeness auto
termination
  by (relation "measure nat") auto

declare bit_length.simps [simp del]

definition Number :: "int \<Rightarrow> int" where
  "Number v =
     (let m = \<bar>v\<bar>;
          e = bit_length m - 53;
          q = m div 2 ^ e;
          r = m mod 2 ^ e;
          q' = (if 2 ^ e < 2 * r \<or> (2 * r = 2 ^ e \<and> odd q) then q + 1 else q)
      in sgn v * (q' * 2 ^ e))"

subsection \<open>Reading\<close>

text \<open>
  The five \<^verbatim>\<open>readOrThrow\<close> functions of the \<^verbatim>\<open>LEB128\<close> namespace start with the same
  \<^verbatim>\<open>do { ... } while ((byte & 0x80) && (shift < 70n))\<close> loop; \<open>leb_read_loop\<close> is that
  loop, entered with the current \<open>value\<close> and \<open>shift\<close>. It returns the accumulated value,
  the final shift and the last byte read, which the signed readers test for the sign.
\<close>

function leb_read_loop :: "cursor \<Rightarrow> int \<Rightarrow> nat \<Rightarrow> error + (int \<times> nat \<times> byte \<times> cursor)" where
  "leb_read_loop c v shift =
     (case readUint8OrThrow c of
        Inl e \<Rightarrow> Inl e
      | Inr (byte, c') \<Rightarrow>
          (if byte AND 0x80 \<noteq> 0 \<and> shift + 7 < 70
           then leb_read_loop c' (v OR push_bit shift (uint (byte AND 0x7F))) (shift + 7)
           else Inr (v OR push_bit shift (uint (byte AND 0x7F)), shift + 7, byte, c')))"
  by pat_completeness auto
termination
  by (relation "measure (\<lambda>(c, v, shift). 70 - shift)") auto

declare leb_read_loop.simps [simp del]

definition U64_readOrThrow :: "cursor \<Rightarrow> error + (int \<times> cursor)" where
  "U64_readOrThrow c =
     andThen (leb_read_loop c 0 0) (\<lambda>(v, shift, byte, c').
       if v > 2 ^ 64 - 1 then Inl (ValueExceedsRange ''U64'') else Inr (v, c'))"

definition I64_readOrThrow :: "cursor \<Rightarrow> error + (int \<times> cursor)" where
  "I64_readOrThrow c =
     andThen (leb_read_loop c 0 0) (\<lambda>(v, shift, byte, c').
       let v' = (if byte AND 0x40 \<noteq> 0 then v OR push_bit shift (- 1) else v)
       in if v' > 2 ^ 63 - 1 then Inl (ValueExceedsRange ''I64'') else Inr (v', c'))"

definition U32_readOrThrow :: "cursor \<Rightarrow> error + (int \<times> cursor)" where
  "U32_readOrThrow c =
     andThen (leb_read_loop c 0 0) (\<lambda>(v, shift, byte, c').
       if v > 2 ^ 32 - 1 then Inl (ValueExceedsRange ''U32'') else Inr (Number v, c'))"

definition I32_readOrThrow :: "cursor \<Rightarrow> error + (int \<times> cursor)" where
  "I32_readOrThrow c =
     andThen (leb_read_loop c 0 0) (\<lambda>(v, shift, byte, c').
       let v' = (if byte AND 0x40 \<noteq> 0 then v OR push_bit shift (- 1) else v)
       in if v' > 2 ^ 31 - 1 then Inl (ValueExceedsRange ''I32'') else Inr (Number v', c'))"

definition I33_readOrThrow :: "cursor \<Rightarrow> error + (int \<times> cursor)" where
  "I33_readOrThrow c =
     andThen (leb_read_loop c 0 0) (\<lambda>(v, shift, byte, c').
       let v' = (if byte AND 0x40 \<noteq> 0 then v OR push_bit shift (- 1) else v)
       in if v' > 2 ^ 32 - 1 then Inl (ValueExceedsRange ''I33'') else Inr (Number v', c'))"

subsection \<open>Sizes and writing\<close>

text \<open>
  The unsigned \<^verbatim>\<open>do { ... } while (value !== 0n)\<close> loop of \<^verbatim>\<open>U32\<close> and \<^verbatim>\<open>U64\<close>. \<^verbatim>\<open>>>=\<close> on
  a BigInt is the arithmetic shift, so a negative value never becomes zero:
  \<^verbatim>\<open>sizeOrThrow\<close> is a partial function, \<open>None\<close> when it does not return. The loop of
  \<^verbatim>\<open>writeOrThrow\<close> writes a byte to the cursor in every round, so there it ends at the
  latest when the cursor is full, by the cursor's error.
\<close>

partial_function (option) unsigned_size_loop :: "int \<Rightarrow> nat \<Rightarrow> nat option" where
  "unsigned_size_loop v sz =
     (if drop_bit 7 v \<noteq> 0 then unsigned_size_loop (drop_bit 7 v) (sz + 1)
      else Some (sz + 1))"

function unsigned_write_loop :: "int \<Rightarrow> cursor \<Rightarrow> error + cursor" where
  "unsigned_write_loop v c =
     (case writeUint8OrThrow c
             (word_of_int (if drop_bit 7 v \<noteq> 0 then (v AND 0x7F) OR 0x80 else v AND 0x7F)) of
        Inl e \<Rightarrow> Inl e
      | Inr c' \<Rightarrow> if drop_bit 7 v \<noteq> 0 then unsigned_write_loop (drop_bit 7 v) c' else Inr c')"
  by pat_completeness auto
termination
  by (relation "measure (\<lambda>(v, c). length (after c))")
     (auto simp: writeUint8OrThrow_def split: list.splits)

declare unsigned_write_loop.simps [simp del]

definition U64_sizeOrThrow :: "int \<Rightarrow> nat option" where
  "U64_sizeOrThrow v = unsigned_size_loop v 0"

definition U64_writeOrThrow :: "int \<Rightarrow> cursor \<Rightarrow> error + cursor" where
  "U64_writeOrThrow v c = unsigned_write_loop v c"

definition U32_sizeOrThrow :: "int \<Rightarrow> nat option" where
  "U32_sizeOrThrow v = unsigned_size_loop v 0"

definition U32_writeOrThrow :: "int \<Rightarrow> cursor \<Rightarrow> error + cursor" where
  "U32_writeOrThrow v c = unsigned_write_loop v c"

text \<open>
  The signed \<^verbatim>\<open>while (more)\<close> loop of \<^verbatim>\<open>I32\<close>, \<^verbatim>\<open>I33\<close> and \<^verbatim>\<open>I64\<close>. It stops when the
  shifted value is \<open>0\<close> with bit 6 of the byte clear, or \<open>- 1\<close> with bit 6 set, which every
  integer reaches.
\<close>

definition signed_done :: "int \<Rightarrow> bool" where
  "signed_done v \<longleftrightarrow>
     (drop_bit 7 v = 0 \<and> (v AND 0x7F) AND 0x40 = 0) \<or>
     (drop_bit 7 v = - 1 \<and> (v AND 0x7F) AND 0x40 \<noteq> 0)"

function signed_size_loop :: "int \<Rightarrow> nat \<Rightarrow> nat" where
  "signed_size_loop v sz =
     (if signed_done v then sz + 1 else signed_size_loop (drop_bit 7 v) (sz + 1))"
  by pat_completeness auto
termination
proof (relation "measure (\<lambda>(v, sz). nat \<bar>v\<bar>)")
  show "wf (measure (\<lambda>(v, sz). nat \<bar>v\<bar>))" by simp
next
  fix v :: int and sz :: nat
  assume nd: "\<not> signed_done v"
  have "v \<noteq> 0" using nd by (auto simp: signed_done_def)
  moreover have "v \<noteq> - 1" using nd by (auto simp: signed_done_def)
  ultimately have "nat \<bar>drop_bit 7 v\<bar> < nat \<bar>v\<bar>" by (simp add: drop_bit_eq_div)
  then show "((drop_bit 7 v, sz + 1), (v, sz)) \<in> measure (\<lambda>(v, sz). nat \<bar>v\<bar>)" by simp
qed

declare signed_size_loop.simps [simp del]

function signed_write_loop :: "int \<Rightarrow> cursor \<Rightarrow> error + cursor" where
  "signed_write_loop v c =
     (case writeUint8OrThrow c
             (word_of_int (if signed_done v then v AND 0x7F else (v AND 0x7F) OR 0x80)) of
        Inl e \<Rightarrow> Inl e
      | Inr c' \<Rightarrow> if signed_done v then Inr c' else signed_write_loop (drop_bit 7 v) c')"
  by pat_completeness auto
termination
  by (relation "measure (\<lambda>(v, c). length (after c))")
     (auto simp: writeUint8OrThrow_def split: list.splits)

declare signed_write_loop.simps [simp del]

definition I64_sizeOrThrow :: "int \<Rightarrow> nat" where
  "I64_sizeOrThrow v = signed_size_loop v 0"

definition I64_writeOrThrow :: "int \<Rightarrow> cursor \<Rightarrow> error + cursor" where
  "I64_writeOrThrow v c = signed_write_loop v c"

definition I32_sizeOrThrow :: "int \<Rightarrow> nat" where
  "I32_sizeOrThrow v = signed_size_loop v 0"

definition I32_writeOrThrow :: "int \<Rightarrow> cursor \<Rightarrow> error + cursor" where
  "I32_writeOrThrow v c = signed_write_loop v c"

definition I33_sizeOrThrow :: "int \<Rightarrow> nat" where
  "I33_sizeOrThrow v = signed_size_loop v 0"

definition I33_writeOrThrow :: "int \<Rightarrow> cursor \<Rightarrow> error + cursor" where
  "I33_writeOrThrow v c = signed_write_loop v c"

section \<open>Facts about the LEB128 loops\<close>

text \<open>
  \<open>leb_value\<close> is the number a sequence of LEB128 bytes stands for, seven bits a byte,
  least significant first. \<open>uleb\<close> and \<open>sleb\<close> are the byte sequences the unsigned and
  the signed writing loops produce, as lists; they are used to state what the loops do.
\<close>

fun leb_value :: "byte list \<Rightarrow> int" where
  "leb_value [] = 0"
| "leb_value (b # bs) = uint (b AND 0x7F) + 128 * leb_value bs"

lemma andThen_simps [simp]:
  "andThen (Inl e) f = Inl e" "andThen (Inr x) f = f x"
  by (simp_all add: andThen_def)

lemma low7_bounds: "0 \<le> uint ((b::byte) AND 0x7F)" "uint ((b::byte) AND 0x7F) < 128"
proof -
  show "0 \<le> uint (b AND 0x7F)" by simp
  have "b AND 0x7F \<le> 0x7F" by (rule word_and_le1)
  then have "uint (b AND 0x7F) \<le> uint (0x7F :: byte)" by (simp add: word_le_def)
  then show "uint (b AND 0x7F) < 128" by simp
qed

lemma or_push_bit_add:
  assumes "0 \<le> v" "v < 2 ^ s"
  shows "v OR push_bit s (x::int) = v + 2 ^ s * x"
proof -
  have "take_bit s v = v" using assms by (simp add: take_bit_int_eq_self)
  then have "v OR push_bit s x = take_bit s v OR push_bit s x" by simp
  also have "\<dots> = take_bit s v + push_bit s x"
    by (rule disjunctive_add_eq_or [symmetric]) (auto simp: bit_eq_iff bit_simps)
  finally show ?thesis using \<open>take_bit s v = v\<close> by (simp add: push_bit_eq_mult mult.commute)
qed

lemma leb_value_bounds: "0 \<le> leb_value bs \<and> leb_value bs < 2 ^ (7 * length bs)"
proof (induction bs)
  case Nil show ?case by simp
next
  case (Cons b bs)
  have "0 \<le> uint (b AND 0x7F)" "uint (b AND 0x7F) < 128" by (rule low7_bounds)+
  moreover have "(2::int) ^ (7 * length (b # bs)) = 128 * 2 ^ (7 * length bs)"
    by (simp add: power_add)
  ultimately show ?case using Cons by simp
qed

lemma leb_read_loop_Inr:
  "leb_read_loop c v s = Inr (v', s', byte, c') \<Longrightarrow> s = 7 * k \<Longrightarrow> k < 10 \<Longrightarrow> 0 \<le> v \<Longrightarrow> v < 2 ^ s \<Longrightarrow>
   \<exists>bs. bs \<noteq> [] \<and> after c = bs @ after c' \<and> before c' = before c @ bs \<and>
        s' = s + 7 * length bs \<and> k + length bs \<le> 10 \<and> byte = last bs \<and>
        (\<forall>b\<in>set (butlast bs). b AND 0x80 \<noteq> 0) \<and>
        (last bs AND 0x80 = 0 \<or> k + length bs = 10) \<and>
        v' = v + 2 ^ s * leb_value bs"
proof (induction c v s arbitrary: k rule: leb_read_loop.induct)
  case (1 c v shift)
  from "1.prems"(1) obtain b c1 where rd: "readUint8OrThrow c = Inr (b, c1)"
    by (subst (asm) leb_read_loop.simps) (auto split: sum.splits)
  then obtain xs where c: "after c = b # xs" and c1: "c1 = \<lparr>before = before c @ [b], after = xs\<rparr>"
    by (auto simp: readUint8OrThrow_def split: list.splits)
  let ?v1 = "v OR push_bit shift (uint (b AND 0x7F))"
  have v1: "?v1 = v + 2 ^ shift * uint (b AND 0x7F)"
    using "1.prems" by (simp add: or_push_bit_add)
  have lo: "0 \<le> uint (b AND 0x7F)" "uint (b AND 0x7F) < 128" by (rule low7_bounds)+
  show ?case
  proof (cases "b AND 0x80 \<noteq> 0 \<and> shift + 7 < 70")
    case True
    then have rec: "leb_read_loop c1 ?v1 (shift + 7) = Inr (v', s', byte, c')"
      using "1.prems"(1) rd by (subst (asm) leb_read_loop.simps) simp
    have "0 \<le> ?v1" using v1 lo "1.prems" by simp
    moreover have "?v1 < 2 ^ (shift + 7)"
    proof -
      have "v + 2 ^ shift * uint (b AND 0x7F) \<le> v + 2 ^ shift * 127"
        using lo by (simp add: mult_left_mono)
      also have "\<dots> < 2 ^ shift + 2 ^ shift * 127" using "1.prems" by simp
      also have "\<dots> = 2 ^ (shift + 7)" by (simp add: power_add)
      finally show ?thesis using v1 by simp
    qed
    moreover have "shift + 7 = 7 * (k + 1)" "k + 1 < 10" using "1.prems" True by auto
    ultimately obtain bs where bs: "bs \<noteq> []" "after c1 = bs @ after c'" "before c' = before c1 @ bs"
        "s' = shift + 7 + 7 * length bs" "k + 1 + length bs \<le> 10" "byte = last bs"
        "\<forall>b\<in>set (butlast bs). b AND 0x80 \<noteq> 0" "last bs AND 0x80 = 0 \<or> k + 1 + length bs = 10"
        "v' = ?v1 + 2 ^ (shift + 7) * leb_value bs"
      using "1.IH"[OF rd refl True rec] by blast
    have "v' = v + 2 ^ shift * leb_value (b # bs)"
      using bs(9) v1 by (simp add: power_add algebra_simps)
    then show ?thesis using bs c c1 True
      by (intro exI[of _ "b # bs"]) auto
  next
    case False
    then have res: "v' = ?v1" "s' = shift + 7" "byte = b" "c' = c1"
      using "1.prems"(1) rd by (subst (asm) leb_read_loop.simps, auto)+
    have "b AND 0x80 = 0 \<or> k + 1 = 10" using False "1.prems" by auto
    then show ?thesis using res c c1 v1 "1.prems"
      by (intro exI[of _ "[b]"]) auto
  qed
qed

function uleb :: "int \<Rightarrow> byte list" where
  "uleb v = (if 0 < v \<and> drop_bit 7 v \<noteq> 0
             then word_of_int ((v AND 0x7F) OR 0x80) # uleb (drop_bit 7 v)
             else [word_of_int (v AND 0x7F)])"
  by pat_completeness auto
termination
  by (relation "measure nat") (auto simp: drop_bit_eq_div)

declare uleb.simps [simp del]

lemma bit_127_int [simp]: "bit (127::int) n \<longleftrightarrow> n < 7"
proof -
  have "bit (mask 7 :: int) n \<longleftrightarrow> n < 7" by (simp add: bit_mask_iff)
  then show ?thesis by (simp add: mask_eq_exp_minus_1)
qed

lemma bit_128_int [simp]: "bit (128::int) n \<longleftrightarrow> n = 7"
  using bit_exp_iff[where ?'a = int, of 7 n] by simp

lemma bit_64_int [simp]: "bit (64::int) n \<longleftrightarrow> n = 6"
  using bit_exp_iff[where ?'a = int, of 6 n] by simp

lemma bit_127_byte [simp]: "bit (127::byte) n \<longleftrightarrow> n < 7"
proof -
  have "bit (mask 7 :: byte) n \<longleftrightarrow> n < 7" by (auto simp add: bit_mask_iff)
  then show ?thesis by (simp add: mask_eq_exp_minus_1)
qed

lemma bit_128_byte [simp]: "bit (128::byte) n \<longleftrightarrow> n = 7"
proof -
  have "bit (2 ^ 7 :: byte) n \<longleftrightarrow> n = 7" by (auto simp add: bit_exp_iff)
  then show ?thesis by simp
qed

lemma bit_64_byte [simp]: "bit (64::byte) n \<longleftrightarrow> n = 6"
proof -
  have "bit (2 ^ 6 :: byte) n \<longleftrightarrow> n = 6" by (auto simp add: bit_exp_iff)
  then show ?thesis by simp
qed

lemma byte_cont_set: "(word_of_int ((v AND 0x7F) OR 0x80) :: byte) AND 0x80 \<noteq> 0"
proof
  assume z: "(word_of_int ((v AND 0x7F) OR 0x80) :: byte) AND 0x80 = 0"
  have "bit ((word_of_int ((v AND 0x7F) OR 0x80) :: byte) AND 0x80) 7"
    by (simp add: bit_simps)
  with z show False by simp
qed

lemma byte_cont_clear: "(word_of_int (v AND 0x7F) :: byte) AND 0x80 = 0"
  by (rule bit_word_eqI) (auto simp: bit_simps)

lemma byte_low7_cont: "uint ((word_of_int ((v AND 0x7F) OR 0x80) :: byte) AND 0x7F) = v AND 0x7F"
  by (rule bit_eqI) (auto simp: bit_simps)

lemma byte_low7: "uint ((word_of_int (v AND 0x7F) :: byte) AND 0x7F) = v AND 0x7F"
  by (rule bit_eqI) (auto simp: bit_simps)

lemma and_7F_mod: "(v::int) AND 0x7F = v mod 128"
proof -
  have "(v::int) AND mask 7 = v mod 2 ^ 7"
    by (simp flip: take_bit_eq_mask add: take_bit_eq_mod)
  then show ?thesis by (simp add: mask_eq_exp_minus_1)
qed

lemma writeUint8_then_write:
  "andThen (writeUint8OrThrow c x) (\<lambda>c'. writeOrThrow c' bs) = writeOrThrow c (x # bs)"
  by (auto simp: writeUint8OrThrow_def writeOrThrow_def remaining_def split: list.splits)

lemma writeUint8_single: "writeUint8OrThrow c x = writeOrThrow c [x]"
  by (auto simp: writeUint8OrThrow_def writeOrThrow_def remaining_def split: list.splits)

lemma unsigned_write_loop_uleb:
  "0 \<le> v \<Longrightarrow> unsigned_write_loop v c = writeOrThrow c (uleb v)"
proof (induction v arbitrary: c rule: uleb.induct)
  case (1 v)
  show ?case
  proof (cases "drop_bit 7 v \<noteq> 0")
    case True
    then have pos: "0 < v" using "1.prems" by (cases "v = 0") auto
    have nn: "0 \<le> drop_bit 7 v" using "1.prems" by simp
    have IH: "\<And>c. unsigned_write_loop (drop_bit 7 v) c = writeOrThrow c (uleb (drop_bit 7 v))"
      using "1.IH" pos True nn by simp
    have "unsigned_write_loop v c =
        andThen (writeUint8OrThrow c (word_of_int ((v AND 0x7F) OR 0x80)))
                (\<lambda>c'. writeOrThrow c' (uleb (drop_bit 7 v)))"
      using True by (subst unsigned_write_loop.simps) (simp add: IH andThen_def split: sum.splits)
    also have "\<dots> = writeOrThrow c (word_of_int ((v AND 0x7F) OR 0x80) # uleb (drop_bit 7 v))"
      by (rule writeUint8_then_write)
    also have "\<dots> = writeOrThrow c (uleb v)"
      using True pos by (subst (2) uleb.simps) simp
    finally show ?thesis .
  next
    case False
    have "unsigned_write_loop v c = writeUint8OrThrow c (word_of_int (v AND 0x7F))"
      using False by (subst unsigned_write_loop.simps) (simp split: sum.splits)
    also have "\<dots> = writeOrThrow c (uleb v)"
      using False by (subst uleb.simps) (simp add: writeUint8_single)
    finally show ?thesis .
  qed
qed

lemma unsigned_size_loop_uleb:
  "0 \<le> v \<Longrightarrow> unsigned_size_loop v sz = Some (sz + length (uleb v))"
proof (induction v arbitrary: sz rule: uleb.induct)
  case (1 v)
  show ?case
  proof (cases "drop_bit 7 v \<noteq> 0")
    case True
    then have pos: "0 < v" using "1.prems" by (cases "v = 0") auto
    have nn: "0 \<le> drop_bit 7 v" using "1.prems" by simp
    have "unsigned_size_loop v sz = unsigned_size_loop (drop_bit 7 v) (sz + 1)"
      using True by (subst unsigned_size_loop.simps) simp
    also have "\<dots> = Some (sz + 1 + length (uleb (drop_bit 7 v)))"
      using "1.IH" pos True nn by simp
    also have "\<dots> = Some (sz + length (uleb v))"
      using True pos by (subst (2) uleb.simps) simp
    finally show ?thesis .
  next
    case False
    then show ?thesis
      by (subst unsigned_size_loop.simps, subst uleb.simps) simp
  qed
qed

lemma unsigned_size_loop_Some:
  assumes "unsigned_size_loop v sz = Some r"
  shows "0 \<le> v"
proof -
  have step: "0 \<le> v"
    if IH: "\<And>v sz r. f v sz = Some r \<Longrightarrow> 0 \<le> v"
    and eq: "(if drop_bit 7 v \<noteq> 0 then f (drop_bit 7 v) (sz + 1) else Some (sz + 1)) = Some r"
    for f :: "int \<Rightarrow> nat \<Rightarrow> nat option" and v sz r
  proof (cases "drop_bit 7 v \<noteq> 0")
    case True
    then have "f (drop_bit 7 v) (sz + 1) = Some r" using eq by simp
    then have "0 \<le> drop_bit 7 v" by (rule IH)
    then show ?thesis by simp
  next
    case False
    then have "v div 128 = 0" by (simp add: drop_bit_eq_div)
    then show ?thesis by presburger
  qed
  show ?thesis
    by (rule unsigned_size_loop.raw_induct[where P = "\<lambda>v sz r. 0 \<le> v", OF step assms])
qed

lemma unsigned_size_loop_negative: "v < 0 \<Longrightarrow> unsigned_size_loop v sz = None"
proof (cases "unsigned_size_loop v sz")
  case None then show ?thesis by simp
next
  case (Some r)
  assume "v < 0"
  with unsigned_size_loop_Some[OF Some] show ?thesis by simp
qed

lemma unsigned_write_loop_negative:
  "v < 0 \<Longrightarrow> unsigned_write_loop v c = Inl CursorWriteOverflowError"
proof (induction v c rule: unsigned_write_loop.induct)
  case (1 v c)
  have nz: "drop_bit 7 v \<noteq> 0" "drop_bit 7 v < 0" using "1.prems" by (auto simp: drop_bit_eq_div)
  have step: "unsigned_write_loop v c =
      (case writeUint8OrThrow c (word_of_int ((v AND 0x7F) OR 0x80)) of
         Inl e \<Rightarrow> Inl e | Inr c' \<Rightarrow> unsigned_write_loop (drop_bit 7 v) c')"
    by (subst unsigned_write_loop.simps) (simp only: nz(1) not_False_eq_True if_True)
  show ?case
  proof (cases "writeUint8OrThrow c (word_of_int ((v AND 0x7F) OR 0x80))")
    case (Inl e)
    then have "e = CursorWriteOverflowError"
      by (auto simp: writeUint8OrThrow_def split: list.splits)
    then show ?thesis using Inl by (simp add: step)
  next
    case (Inr c')
    have "unsigned_write_loop (drop_bit 7 v) c' = Inl CursorWriteOverflowError"
      using "1.IH"[of c'] Inr nz by simp
    then show ?thesis using Inr by (simp add: step)
  qed
qed

definition leb_ok :: "nat \<Rightarrow> byte list \<Rightarrow> bool" where
  "leb_ok k bs \<longleftrightarrow>
     bs \<noteq> [] \<and> k + length bs \<le> 10 \<and> (\<forall>b\<in>set (butlast bs). b AND 0x80 \<noteq> 0) \<and>
     (last bs AND 0x80 = 0 \<or> k + length bs = 10)"

lemma leb_read_loop_reads:
  "leb_ok k bs \<Longrightarrow> s = 7 * k \<Longrightarrow> 0 \<le> v \<Longrightarrow> v < 2 ^ s \<Longrightarrow>
   leb_read_loop \<lparr>before = p, after = bs @ rest\<rparr> v s =
     Inr (v + 2 ^ s * leb_value bs, s + 7 * length bs, last bs, \<lparr>before = p @ bs, after = rest\<rparr>)"
proof (induction bs arbitrary: k s v p)
  case Nil
  then show ?case by (simp add: leb_ok_def)
next
  case (Cons b bs)
  let ?v1 = "v OR push_bit s (uint (b AND 0x7F))"
  have v1: "?v1 = v + 2 ^ s * uint (b AND 0x7F)"
    using Cons.prems by (simp add: or_push_bit_add)
  have lo: "0 \<le> uint (b AND 0x7F)" "uint (b AND 0x7F) < 128" by (rule low7_bounds)+
  have rd: "readUint8OrThrow \<lparr>before = p, after = (b # bs) @ rest\<rparr> =
      Inr (b, \<lparr>before = p @ [b], after = bs @ rest\<rparr>)"
    by (simp add: readUint8OrThrow_def)
  have unf: "leb_read_loop \<lparr>before = p, after = (b # bs) @ rest\<rparr> v s =
      (if b AND 0x80 \<noteq> 0 \<and> s + 7 < 70
       then leb_read_loop \<lparr>before = p @ [b], after = bs @ rest\<rparr> ?v1 (s + 7)
       else Inr (?v1, s + 7, b, \<lparr>before = p @ [b], after = bs @ rest\<rparr>))"
    by (subst leb_read_loop.simps) (simp only: rd sum.case prod.case)
  show ?case
  proof (cases "bs = []")
    case True
    then have "b AND 0x80 = 0 \<or> k + 1 = 10" using Cons.prems(1) by (simp add: leb_ok_def)
    then have nc: "\<not> (b AND 0x80 \<noteq> 0 \<and> s + 7 < 70)" using Cons.prems(2) by auto
    have "leb_read_loop \<lparr>before = p, after = (b # bs) @ rest\<rparr> v s =
        Inr (?v1, s + 7, b, \<lparr>before = p @ [b], after = bs @ rest\<rparr>)"
      by (simp only: unf if_not_P[OF nc])
    then show ?thesis using True v1 by simp
  next
    case False
    then obtain x xs where bsx: "bs = x # xs" by (cases bs) auto
    have ok: "leb_ok (k + 1) bs" and cont: "b AND 0x80 \<noteq> 0"
      using Cons.prems(1) False by (auto simp: leb_ok_def)
    have k: "k + 1 < 10" using Cons.prems(1) by (simp add: leb_ok_def bsx)
    have s7: "s + 7 = 7 * (k + 1)" using Cons.prems(2) by simp
    have "0 \<le> ?v1" using v1 lo Cons.prems by simp
    moreover have "?v1 < 2 ^ (s + 7)"
    proof -
      have "v + 2 ^ s * uint (b AND 0x7F) \<le> v + 2 ^ s * 127"
        using lo by (simp add: mult_left_mono)
      also have "\<dots> < 2 ^ s + 2 ^ s * 127" using Cons.prems by simp
      also have "\<dots> = 2 ^ (s + 7)" by (simp add: power_add)
      finally show ?thesis using v1 by simp
    qed
    ultimately have IH: "leb_read_loop \<lparr>before = p @ [b], after = bs @ rest\<rparr> ?v1 (s + 7) =
       Inr (?v1 + 2 ^ (s + 7) * leb_value bs, s + 7 + 7 * length bs, last bs,
            \<lparr>before = (p @ [b]) @ bs, after = rest\<rparr>)"
      using Cons.IH[OF ok s7] by blast
    have lt: "s + 7 < 70" using s7 k by simp
    have cc: "b AND 0x80 \<noteq> 0 \<and> s + 7 < 70" using cont lt by simp
    have "leb_read_loop \<lparr>before = p, after = (b # bs) @ rest\<rparr> v s =
        leb_read_loop \<lparr>before = p @ [b], after = bs @ rest\<rparr> ?v1 (s + 7)"
      by (simp only: unf if_P[OF cc])
    then show ?thesis using IH False v1 by (simp add: power_add algebra_simps)
  qed
qed

lemma leb_read_loop_Inl: "leb_read_loop c v s = Inl e \<Longrightarrow> e = CursorReadOverflowError"
proof (induction c v s rule: leb_read_loop.induct)
  case (1 c v shift)
  show ?case
  proof (cases "readUint8OrThrow c")
    case (Inl e')
    then have "e' = CursorReadOverflowError"
      by (auto simp: readUint8OrThrow_def split: list.splits)
    then show ?thesis using "1.prems" Inl by (simp add: leb_read_loop.simps[of c])
  next
    case (Inr r)
    obtain b c1 where r: "r = (b, c1)" by (cases r)
    have unf: "leb_read_loop c v shift =
      (if b AND 0x80 \<noteq> 0 \<and> shift + 7 < 70
       then leb_read_loop c1 (v OR push_bit shift (uint (b AND 0x7F))) (shift + 7)
       else Inr (v OR push_bit shift (uint (b AND 0x7F)), shift + 7, b, c1))"
      by (subst leb_read_loop.simps) (simp only: Inr r sum.case prod.case)
    show ?thesis
    proof (cases "b AND 0x80 \<noteq> 0 \<and> shift + 7 < 70")
      case True
      have "leb_read_loop c1 (v OR push_bit shift (uint (b AND 0x7F))) (shift + 7) = Inl e"
        using "1.prems" by (simp only: unf if_P[OF True])
      then show ?thesis using "1.IH"[OF Inr[unfolded r] refl True] by simp
    next
      case False
      have "leb_read_loop c v shift = Inr (v OR push_bit shift (uint (b AND 0x7F)), shift + 7, b, c1)"
        by (simp only: unf if_not_P[OF False])
      then show ?thesis using "1.prems" by simp
    qed
  qed
qed

lemma uleb_props:
  "0 \<le> v \<Longrightarrow> uleb v \<noteq> [] \<and> (\<forall>b\<in>set (butlast (uleb v)). b AND 0x80 \<noteq> 0) \<and>
     last (uleb v) AND 0x80 = 0 \<and> leb_value (uleb v) = v"
proof (induction v rule: uleb.induct)
  case (1 v)
  show ?case
  proof (cases "0 < v \<and> drop_bit 7 v \<noteq> 0")
    case True
    then have eq: "uleb v = word_of_int ((v AND 0x7F) OR 0x80) # uleb (drop_bit 7 v)"
      by (subst uleb.simps) simp
    have IH: "uleb (drop_bit 7 v) \<noteq> [] \<and> (\<forall>b\<in>set (butlast (uleb (drop_bit 7 v))). b AND 0x80 \<noteq> 0) \<and>
       last (uleb (drop_bit 7 v)) AND 0x80 = 0 \<and> leb_value (uleb (drop_bit 7 v)) = drop_bit 7 v"
      using "1.IH" True "1.prems" by simp
    have low: "uint ((word_of_int ((v AND 0x7F) OR 0x80) :: byte) AND 0x7F) = v mod 128"
      by (subst byte_low7_cont) (rule and_7F_mod)
    have "v mod 128 + 128 * (v div 128) = v" by simp
    then show ?thesis using IH byte_cont_set[of v]
      by (simp add: eq low drop_bit_eq_div)
  next
    case False
    then have eq: "uleb v = [word_of_int (v AND 0x7F)]" by (subst uleb.simps) auto
    have "v div 128 = 0" using False "1.prems" by (cases "v = 0") (auto simp: drop_bit_eq_div)
    then have "v mod 128 = v" using "1.prems" by presburger
    moreover have "uint ((word_of_int (v AND 0x7F) :: byte) AND 0x7F) = v mod 128"
      by (subst byte_low7) (rule and_7F_mod)
    ultimately show ?thesis using byte_cont_clear[of v] by (simp add: eq)
  qed
qed

lemma uleb_length:
  "0 \<le> v \<Longrightarrow> v < 2 ^ (7 * k) \<Longrightarrow> 1 \<le> k \<Longrightarrow> length (uleb v) \<le> k"
proof (induction v arbitrary: k rule: uleb.induct)
  case (1 v)
  show ?case
  proof (cases "0 < v \<and> drop_bit 7 v \<noteq> 0")
    case True
    then have eq: "uleb v = word_of_int ((v AND 0x7F) OR 0x80) # uleb (drop_bit 7 v)"
      by (subst uleb.simps) simp
    have k2: "2 \<le> k"
    proof (rule ccontr)
      assume "\<not> 2 \<le> k"
      then have "k = 1" using "1.prems" by simp
      then have "v < 128" using "1.prems" by simp
      then have "v div 128 = 0" using "1.prems" by simp
      then show False using True by (simp add: drop_bit_eq_div)
    qed
    then obtain k' where k': "k = Suc k'" "1 \<le> k'" by (cases k) auto
    have "v < 128 * 2 ^ (7 * k')" using "1.prems" k' by (simp add: power_add)
    then have "v div 128 < 2 ^ (7 * k')" by simp
    then have "length (uleb (drop_bit 7 v)) \<le> k'"
      using "1.IH"[OF True, of k'] "1.prems" k' by (simp add: drop_bit_eq_div)
    then show ?thesis using eq k' by simp
  next
    case False
    then have eq: "uleb v = [word_of_int (v AND 0x7F)]" by (subst uleb.simps) auto
    then show ?thesis using "1.prems" by simp
  qed
qed

function sleb :: "int \<Rightarrow> byte list" where
  "sleb v = (if signed_done v then [word_of_int (v AND 0x7F)]
             else word_of_int ((v AND 0x7F) OR 0x80) # sleb (drop_bit 7 v))"
  by pat_completeness auto
termination
proof (relation "measure (\<lambda>v. nat \<bar>v\<bar>)")
  show "wf (measure (\<lambda>v. nat \<bar>v\<bar>))" by simp
next
  fix v :: int
  assume nd: "\<not> signed_done v"
  have "v \<noteq> 0" using nd by (auto simp: signed_done_def)
  moreover have "v \<noteq> - 1" using nd by (auto simp: signed_done_def)
  ultimately have "nat \<bar>drop_bit 7 v\<bar> < nat \<bar>v\<bar>" by (simp add: drop_bit_eq_div)
  then show "(drop_bit 7 v, v) \<in> measure (\<lambda>v. nat \<bar>v\<bar>)" by simp
qed

declare sleb.simps [simp del]

lemma and_40_zero_iff: "((v::int) AND 0x7F) AND 0x40 = 0 \<longleftrightarrow> even (v div 64)"
proof -
  have "((v::int) AND 0x7F) AND 0x40 = (if bit v 6 then 64 else 0)"
    by (rule bit_eqI) (auto simp: bit_simps)
  then have "((v::int) AND 0x7F) AND 0x40 = 0 \<longleftrightarrow> \<not> bit v 6" by simp
  also have "\<dots> \<longleftrightarrow> even (v div 64)" by (simp add: bit_iff_odd)
  finally show ?thesis .
qed

lemma signed_done_iff: "signed_done v \<longleftrightarrow> - 64 \<le> v \<and> v < 64"
proof -
  have a: "signed_done v \<longleftrightarrow>
     (v div 128 = 0 \<and> even (v div 64)) \<or> (v div 128 = - 1 \<and> odd (v div 64))"
    by (simp add: signed_done_def and_40_zero_iff drop_bit_eq_div)
  have b: "v div 128 = v div 64 div 2" using zdiv_zmult2_eq[of 2 v 64] by simp
  have c: "(w div 2 = 0 \<and> even w) \<or> (w div 2 = - 1 \<and> odd w) \<longleftrightarrow> w = 0 \<or> w = - 1"
    for w :: int by presburger
  have d: "(v div 64 = 0 \<or> v div 64 = - 1) \<longleftrightarrow> - 64 \<le> v \<and> v < 64"
    by presburger
  show ?thesis unfolding a b c d by (rule refl)
qed

lemma signed_write_loop_sleb: "signed_write_loop v c = writeOrThrow c (sleb v)"
proof (induction v arbitrary: c rule: sleb.induct)
  case (1 v)
  show ?case
  proof (cases "signed_done v")
    case True
    then have "signed_write_loop v c = writeUint8OrThrow c (word_of_int (v AND 0x7F))"
      by (subst signed_write_loop.simps) (simp split: sum.splits)
    also have "\<dots> = writeOrThrow c (sleb v)"
      using True by (subst sleb.simps) (simp add: writeUint8_single)
    finally show ?thesis .
  next
    case False
    have IH: "\<And>c. signed_write_loop (drop_bit 7 v) c = writeOrThrow c (sleb (drop_bit 7 v))"
      using "1.IH" False by simp
    have "signed_write_loop v c =
        andThen (writeUint8OrThrow c (word_of_int ((v AND 0x7F) OR 0x80)))
                (\<lambda>c'. writeOrThrow c' (sleb (drop_bit 7 v)))"
      using False by (subst signed_write_loop.simps) (simp add: IH andThen_def split: sum.splits)
    also have "\<dots> = writeOrThrow c (word_of_int ((v AND 0x7F) OR 0x80) # sleb (drop_bit 7 v))"
      by (rule writeUint8_then_write)
    also have "\<dots> = writeOrThrow c (sleb v)"
      using False by (subst (2) sleb.simps) simp
    finally show ?thesis .
  qed
qed

lemma signed_size_loop_sleb: "signed_size_loop v sz = sz + length (sleb v)"
proof (induction v arbitrary: sz rule: sleb.induct)
  case (1 v)
  show ?case
  proof (cases "signed_done v")
    case True
    then show ?thesis by (subst signed_size_loop.simps, subst sleb.simps) simp
  next
    case False
    have "signed_size_loop v sz = signed_size_loop (drop_bit 7 v) (sz + 1)"
      using False by (subst signed_size_loop.simps) simp
    also have "\<dots> = sz + 1 + length (sleb (drop_bit 7 v))" using "1.IH" False by simp
    also have "\<dots> = sz + length (sleb v)" using False by (subst (2) sleb.simps) simp
    finally show ?thesis .
  qed
qed

lemma sleb_props:
  "sleb v \<noteq> [] \<and> (\<forall>b\<in>set (butlast (sleb v)). b AND 0x80 \<noteq> 0) \<and> last (sleb v) AND 0x80 = 0"
proof (induction v rule: sleb.induct)
  case (1 v)
  show ?case
  proof (cases "signed_done v")
    case True
    then have eq: "sleb v = [word_of_int (v AND 0x7F)]" by (subst sleb.simps) simp
    show ?thesis using byte_cont_clear[of v] by (simp add: eq)
  next
    case False
    then have eq: "sleb v = word_of_int ((v AND 0x7F) OR 0x80) # sleb (drop_bit 7 v)"
      by (subst sleb.simps) simp
    show ?thesis using "1.IH"[OF False] byte_cont_set[of v] by (simp add: eq)
  qed
qed

lemma sleb_range:
  "- (2 ^ (7 * length (sleb v) - 1)) \<le> v \<and> v < 2 ^ (7 * length (sleb v) - 1)"
proof (induction v rule: sleb.induct)
  case (1 v)
  show ?case
  proof (cases "signed_done v")
    case True
    then have eq: "sleb v = [word_of_int (v AND 0x7F)]" by (subst sleb.simps) simp
    show ?thesis using True by (simp add: eq signed_done_iff)
  next
    case False
    then have eq: "sleb v = word_of_int ((v AND 0x7F) OR 0x80) # sleb (drop_bit 7 v)"
      by (subst sleb.simps) simp
    define n where "n = length (sleb (drop_bit 7 v))"
    have n: "1 \<le> n" using sleb_props[of "drop_bit 7 v"] by (cases "sleb (drop_bit 7 v)") (auto simp: n_def)
    have IH: "- (2 ^ (7 * n - 1)) \<le> v div 128" "v div 128 < 2 ^ (7 * n - 1)"
      using "1.IH"[OF False] by (simp_all add: n_def drop_bit_eq_div)
    have p: "(2::int) ^ (7 * Suc n - 1) = 128 * 2 ^ (7 * n - 1)"
    proof -
      obtain n' where "n = Suc n'" using n by (cases n) auto
      then have "7 * Suc n - 1 = 7 + (7 * n' + 6)" "7 * n - 1 = 7 * n' + 6" by simp_all
      then show ?thesis by (simp only: power_add) simp
    qed
    have "- (128 * 2 ^ (7 * n - 1)) \<le> v" using IH(1) by linarith
    moreover have "v < 128 * 2 ^ (7 * n - 1)" using IH(2) by linarith
    ultimately show ?thesis using p by (simp add: eq n_def[symmetric])
  qed
qed

lemma sleb_value: "leb_value (sleb v) = v mod 2 ^ (7 * length (sleb v))"
proof (induction v rule: sleb.induct)
  case (1 v)
  show ?case
  proof (cases "signed_done v")
    case True
    then have eq: "sleb v = [word_of_int (v AND 0x7F)]" by (subst sleb.simps) simp
    have "uint ((word_of_int (v AND 0x7F) :: byte) AND 0x7F) = v mod 128"
      by (subst byte_low7) (rule and_7F_mod)
    then show ?thesis by (simp add: eq)
  next
    case False
    then have eq: "sleb v = word_of_int ((v AND 0x7F) OR 0x80) # sleb (drop_bit 7 v)"
      by (subst sleb.simps) simp
    define n where "n = length (sleb (drop_bit 7 v))"
    have low: "uint ((word_of_int ((v AND 0x7F) OR 0x80) :: byte) AND 0x7F) = v mod 128"
      by (subst byte_low7_cont) (rule and_7F_mod)
    have IH: "leb_value (sleb (drop_bit 7 v)) = (v div 128) mod 2 ^ (7 * n)"
      using "1.IH"[OF False] by (simp add: n_def drop_bit_eq_div)
    have "v mod (128 * 2 ^ (7 * n)) = 128 * (v div 128 mod 2 ^ (7 * n)) + v mod 128"
      by (rule zmod_zmult2_eq) simp
    moreover have "(2::int) ^ (7 * Suc n) = 128 * 2 ^ (7 * n)" by (simp add: power_add)
    ultimately show ?thesis by (simp add: eq low IH n_def[symmetric])
  qed
qed

lemma sleb_sign: "last (sleb v) AND 0x40 \<noteq> 0 \<longleftrightarrow> v < 0"
proof (induction v rule: sleb.induct)
  case (1 v)
  show ?case
  proof (cases "signed_done v")
    case True
    then have eq: "sleb v = [word_of_int (v AND 0x7F)]" by (subst sleb.simps) simp
    have "(word_of_int (v AND 0x7F) :: byte) AND 0x40 \<noteq> 0 \<longleftrightarrow> bit v 6"
    proof
      assume "(word_of_int (v AND 0x7F) :: byte) AND 0x40 \<noteq> 0"
      then obtain n where "bit ((word_of_int (v AND 0x7F) :: byte) AND 0x40) n"
        by (auto simp: bit_eq_iff)
      then show "bit v 6" by (auto simp: bit_simps)
    next
      assume "bit v 6"
      then have "bit ((word_of_int (v AND 0x7F) :: byte) AND 0x40) 6" by (simp add: bit_simps)
      then show "(word_of_int (v AND 0x7F) :: byte) AND 0x40 \<noteq> 0" by auto
    qed
    also have "\<dots> \<longleftrightarrow> odd (v div 64)" by (simp add: bit_iff_odd)
    also have "\<dots> \<longleftrightarrow> v < 0" using True unfolding signed_done_iff by presburger
    finally show ?thesis by (simp add: eq)
  next
    case False
    then have eq: "sleb v = word_of_int ((v AND 0x7F) OR 0x80) # sleb (drop_bit 7 v)"
      by (subst sleb.simps) simp
    have "v div 128 < 0 \<longleftrightarrow> v < 0" by presburger
    then show ?thesis using "1.IH"[OF False] sleb_props[of "drop_bit 7 v"]
      by (simp add: eq drop_bit_eq_div)
  qed
qed

lemma sleb_length:
  "- (2 ^ (7 * k - 1)) \<le> v \<Longrightarrow> v < 2 ^ (7 * k - 1) \<Longrightarrow> 1 \<le> k \<Longrightarrow> length (sleb v) \<le> k"
proof (induction v arbitrary: k rule: sleb.induct)
  case (1 v)
  show ?case
  proof (cases "signed_done v")
    case True
    then have eq: "sleb v = [word_of_int (v AND 0x7F)]" by (subst sleb.simps) simp
    show ?thesis using "1.prems" by (simp add: eq)
  next
    case False
    then have eq: "sleb v = word_of_int ((v AND 0x7F) OR 0x80) # sleb (drop_bit 7 v)"
      by (subst sleb.simps) simp
    have k2: "2 \<le> k"
    proof (rule ccontr)
      assume "\<not> 2 \<le> k"
      then have "k = 1" using "1.prems" by simp
      then have "- 64 \<le> v" "v < 64" using "1.prems" by simp_all
      then show False using False by (simp add: signed_done_iff)
    qed
    then obtain k' where k': "k = Suc k'" "1 \<le> k'" by (cases k) auto
    have p: "(2::int) ^ (7 * k - 1) = 128 * 2 ^ (7 * k' - 1)"
    proof -
      obtain j where "k' = Suc j" using k' by (cases k') auto
      then have "7 * k - 1 = 7 + (7 * j + 6)" "7 * k' - 1 = 7 * j + 6" using k' by simp_all
      then show ?thesis by (simp only: power_add) simp
    qed
    have "- (2 ^ (7 * k' - 1)) \<le> v div 128" using "1.prems"(1) unfolding p by linarith
    moreover have "v div 128 < 2 ^ (7 * k' - 1)" using "1.prems"(2) unfolding p by linarith
    ultimately have "length (sleb (drop_bit 7 v)) \<le> k'"
      using "1.IH"[OF False, of k'] k' by (simp add: drop_bit_eq_div)
    then show ?thesis using eq k' by simp
  qed
qed

lemma bit_length_le: "m < 2 ^ n \<Longrightarrow> bit_length m \<le> n"
proof (induction n arbitrary: m)
  case 0
  then show ?case by (subst bit_length.simps) simp
next
  case (Suc n)
  show ?case
  proof (cases "m \<le> 0")
    case True
    then show ?thesis by (subst bit_length.simps) simp
  next
    case False
    have "m div 2 < 2 ^ n" using Suc.prems by simp
    then have "bit_length (m div 2) \<le> n" by (rule Suc.IH)
    then show ?thesis using False by (subst bit_length.simps) simp
  qed
qed

lemma Number_exact: "\<bar>v\<bar> < 2 ^ 53 \<Longrightarrow> Number v = v"
proof -
  assume "\<bar>v\<bar> < 2 ^ 53"
  then have "bit_length \<bar>v\<bar> \<le> 53" by (rule bit_length_le)
  then have "bit_length \<bar>v\<bar> - 53 = 0" by simp
  then show ?thesis by (simp add: Number_def Let_def mult_sgn_abs)
qed

lemma uleb_leb_ok: "0 \<le> u \<Longrightarrow> u < 2 ^ 70 \<Longrightarrow> leb_ok 0 (uleb u)"
proof -
  assume u: "0 \<le> u" "u < 2 ^ 70"
  have "length (uleb u) \<le> 10" using uleb_length[of u 10] u by simp
  then show ?thesis using uleb_props[OF u(1)] by (simp add: leb_ok_def)
qed

lemma leb_read_loop_start:
  "leb_ok 0 bs \<Longrightarrow>
   leb_read_loop \<lparr>before = p, after = bs @ rest\<rparr> 0 0 =
     Inr (leb_value bs, 7 * length bs, last bs, \<lparr>before = p @ bs, after = rest\<rparr>)"
  using leb_read_loop_reads[of 0 bs 0 0 p rest] by simp

lemma U32_read_reads:
  "leb_ok 0 bs \<Longrightarrow> leb_value bs \<le> 2 ^ 32 - 1 \<Longrightarrow>
   U32_readOrThrow \<lparr>before = p, after = bs @ rest\<rparr> =
     Inr (leb_value bs, \<lparr>before = p @ bs, after = rest\<rparr>)"
proof -
  assume ok: "leb_ok 0 bs" and le: "leb_value bs \<le> 2 ^ 32 - 1"
  have "0 \<le> leb_value bs" using leb_value_bounds[of bs] by simp
  then have "Number (leb_value bs) = leb_value bs" using le by (intro Number_exact) simp
  then show ?thesis using le by (simp add: U32_readOrThrow_def leb_read_loop_start[OF ok])
qed

lemma U32_read_uleb:
  "0 \<le> u \<Longrightarrow> u \<le> 2 ^ 32 - 1 \<Longrightarrow>
   U32_readOrThrow \<lparr>before = p, after = uleb u @ rest\<rparr> = Inr (u, \<lparr>before = p @ uleb u, after = rest\<rparr>)"
proof -
  assume u: "0 \<le> u" "u \<le> 2 ^ 32 - 1"
  have ok: "leb_ok 0 (uleb u)" using u by (intro uleb_leb_ok) simp_all
  show ?thesis using U32_read_reads[OF ok, of p rest] uleb_props[OF u(1)] u by simp
qed

definition sign_extend :: "byte list \<Rightarrow> int" where
  "sign_extend bs =
     (if last bs AND 0x40 \<noteq> 0 then leb_value bs - 2 ^ (7 * length bs) else leb_value bs)"

lemma sign_extend_or:
  "(if last bs AND 0x40 \<noteq> 0 then leb_value bs OR push_bit (7 * length bs) (- 1) else leb_value bs)
     = sign_extend bs"
  using leb_value_bounds[of bs] or_push_bit_add[of "leb_value bs" "7 * length bs" "- 1"]
  by (simp add: sign_extend_def)

lemma sign_extend_negative: "last bs AND 0x40 \<noteq> 0 \<Longrightarrow> sign_extend bs < 0"
  using leb_value_bounds[of bs] by (simp add: sign_extend_def)

lemma I32_read_reads:
  "leb_ok 0 bs \<Longrightarrow> sign_extend bs \<le> 2 ^ 31 - 1 \<Longrightarrow>
   I32_readOrThrow \<lparr>before = p, after = bs @ rest\<rparr> =
     Inr (Number (sign_extend bs), \<lparr>before = p @ bs, after = rest\<rparr>)"
  by (simp add: I32_readOrThrow_def leb_read_loop_start sign_extend_or Let_def)

lemma I33_read_reads:
  "leb_ok 0 bs \<Longrightarrow> sign_extend bs \<le> 2 ^ 32 - 1 \<Longrightarrow>
   I33_readOrThrow \<lparr>before = p, after = bs @ rest\<rparr> =
     Inr (Number (sign_extend bs), \<lparr>before = p @ bs, after = rest\<rparr>)"
  by (simp add: I33_readOrThrow_def leb_read_loop_start sign_extend_or Let_def)

lemma I64_read_reads:
  "leb_ok 0 bs \<Longrightarrow> sign_extend bs \<le> 2 ^ 63 - 1 \<Longrightarrow>
   I64_readOrThrow \<lparr>before = p, after = bs @ rest\<rparr> =
     Inr (sign_extend bs, \<lparr>before = p @ bs, after = rest\<rparr>)"
  by (simp add: I64_readOrThrow_def leb_read_loop_start sign_extend_or Let_def)

lemma U64_read_reads:
  "leb_ok 0 bs \<Longrightarrow> leb_value bs \<le> 2 ^ 64 - 1 \<Longrightarrow>
   U64_readOrThrow \<lparr>before = p, after = bs @ rest\<rparr> =
     Inr (leb_value bs, \<lparr>before = p @ bs, after = rest\<rparr>)"
  by (simp add: U64_readOrThrow_def leb_read_loop_start)

lemma cursor_split:
  "after c = bs @ after c' \<Longrightarrow> before c' = before c @ bs \<Longrightarrow>
   c = \<lparr>before = before c, after = bs @ after c'\<rparr> \<and> c' = \<lparr>before = before c @ bs, after = after c'\<rparr>"
  by simp

lemma leb_read_loop_start_Inr:
  assumes "leb_read_loop c 0 0 = Inr (v, s, byte, c')"
  obtains bs where "leb_ok 0 bs" "after c = bs @ after c'" "before c' = before c @ bs"
    "v = leb_value bs" "s = 7 * length bs" "byte = last bs"
proof -
  from leb_read_loop_Inr[OF assms, of 0] obtain bs where
    "bs \<noteq> []" "after c = bs @ after c'" "before c' = before c @ bs" "s = 0 + 7 * length bs"
    "0 + length bs \<le> 10" "byte = last bs" "\<forall>b\<in>set (butlast bs). b AND 0x80 \<noteq> 0"
    "last bs AND 0x80 = 0 \<or> 0 + length bs = 10" "v = 0 + 2 ^ 0 * leb_value bs"
    by auto
  then show ?thesis by (intro that[of bs]) (auto simp: leb_ok_def)
qed

lemma andThen_Inr_iff: "andThen m f = Inr y \<longleftrightarrow> (\<exists>x. m = Inr x \<and> f x = Inr y)"
  by (cases m) auto

lemma andThen_Inl_iff: "andThen m f = Inl e \<longleftrightarrow> m = Inl e \<or> (\<exists>x. m = Inr x \<and> f x = Inl e)"
  by (cases m) auto

definition leb_readers :: "(cursor \<Rightarrow> error + (int \<times> cursor)) set" where
  "leb_readers = {U32_readOrThrow, I32_readOrThrow, I33_readOrThrow, U64_readOrThrow, I64_readOrThrow}"

lemma leb_reader_consumes:
  assumes R: "R \<in> leb_readers" and ok: "R c = Inr (v, c')"
  shows "\<exists>bs. leb_ok 0 bs \<and> after c = bs @ after c' \<and> before c' = before c @ bs"
proof -
  from R ok obtain v0 s byte where "leb_read_loop c 0 0 = Inr (v0, s, byte, c')"
    by (auto simp: leb_readers_def U32_readOrThrow_def I32_readOrThrow_def I33_readOrThrow_def
        U64_readOrThrow_def I64_readOrThrow_def andThen_Inr_iff Let_def split: if_splits)
  then show ?thesis by (rule leb_read_loop_start_Inr) blast
qed

lemma leb_reader_errors:
  assumes R: "R \<in> leb_readers" and err: "R c = Inl e"
  shows "e = CursorReadOverflowError \<or> (\<exists>n. e = ValueExceedsRange n)"
  using R err
  by (auto simp: leb_readers_def U32_readOrThrow_def I32_readOrThrow_def I33_readOrThrow_def
        U64_readOrThrow_def I64_readOrThrow_def andThen_Inl_iff Let_def
      split: if_splits dest: leb_read_loop_Inl)

lemma leb_reader_accepts:
  assumes R: "R \<in> leb_readers" and ok: "leb_ok 0 bs" and pos: "last bs AND 0x40 = 0"
    and le: "leb_value bs \<le> 2 ^ 31 - 1"
  shows "R \<lparr>before = p, after = bs @ rest\<rparr> = Inr (leb_value bs, \<lparr>before = p @ bs, after = rest\<rparr>)"
proof -
  have se: "sign_extend bs = leb_value bs" using pos by (simp add: sign_extend_def)
  have "0 \<le> leb_value bs" using leb_value_bounds[of bs] by simp
  then have num: "Number (leb_value bs) = leb_value bs" using le by (intro Number_exact) simp
  show ?thesis using R ok le se num
    by (auto simp: leb_readers_def U32_read_reads I32_read_reads I33_read_reads U64_read_reads
        I64_read_reads)
qed

text \<open>
  The size loop as a total function, for evaluation: it returns on the nonnegative values
  and only on them.
\<close>

lemma unsigned_size_loop_code [code]:
  "unsigned_size_loop v sz = (if v < 0 then None else Some (sz + length (uleb v)))"
  by (simp add: unsigned_size_loop_negative unsigned_size_loop_uleb)

lemma bit_length_bounds: "0 < m \<Longrightarrow> 2 ^ (bit_length m - 1) \<le> m \<and> m < 2 ^ bit_length m"
proof (induction m rule: bit_length.induct)
  case (1 n)
  show ?case
  proof (cases "n div 2 \<le> 0")
    case True
    then have n1: "n = 1" using "1.prems" by presburger
    have "bit_length 1 = Suc (bit_length ((1::int) div 2))" by (subst bit_length.simps) simp
    also have "bit_length ((1::int) div 2) = 0" by (subst bit_length.simps) simp
    finally show ?thesis using n1 by simp
  next
    case False
    then have pos: "0 < n div 2" by simp
    have IH: "2 ^ (bit_length (n div 2) - 1) \<le> n div 2 \<and> n div 2 < 2 ^ bit_length (n div 2)"
      using "1.IH" "1.prems" pos by simp
    have bl: "bit_length n = Suc (bit_length (n div 2))"
      using "1.prems" by (subst bit_length.simps) simp
    have gt: "0 < bit_length (n div 2)" using pos by (subst bit_length.simps) simp
    then obtain k where k: "bit_length (n div 2) = Suc k" by (cases "bit_length (n div 2)") auto
    have "2 * 2 ^ k \<le> n" using IH k by simp linarith
    moreover have "n < 2 * 2 ^ Suc k" using IH k by simp linarith
    ultimately show ?thesis using bl k by simp
  qed
qed

lemma bit_length_eq:
  assumes "2 ^ (n - 1) \<le> m" "m < 2 ^ n" "0 < n"
  shows "bit_length m = n"
proof -
  have pos: "0 < m" using assms(1) by (smt (verit) zero_less_power)
  have le: "bit_length m \<le> n" using assms(2) by (rule bit_length_le)
  have "\<not> bit_length m < n"
  proof
    assume lt: "bit_length m < n"
    then have "bit_length m \<le> n - 1" by simp
    then have "(2::int) ^ bit_length m \<le> 2 ^ (n - 1)" by (simp add: power_increasing)
    then show False using bit_length_bounds[OF pos] assms(1) by linarith
  qed
  then show ?thesis using le by simp
qed

text \<open>The magnitude that \<open>Number\<close> rounds to, for a magnitude of 54 bits or more.\<close>

lemma Number_large:
  assumes big: "2 ^ 53 \<le> \<bar>v\<bar>"
  obtains n q' where "53 < n" "2 ^ (n - 1) \<le> \<bar>v\<bar>" "\<bar>v\<bar> < 2 ^ n"
    "Number v = sgn v * (q' * 2 ^ (n - 53))" "2 ^ 52 \<le> q'" "q' \<le> 2 ^ 53"
    "\<bar>v\<bar> = 2 ^ (n - 1) \<longrightarrow> q' = 2 ^ 52"
proof -
  define m where "m = \<bar>v\<bar>"
  define n where "n = bit_length m"
  define e where "e = n - 53"
  define q where "q = m div 2 ^ e"
  define r where "r = m mod 2 ^ e"
  define q' where "q' = (if 2 ^ e < 2 * r \<or> (2 * r = 2 ^ e \<and> odd q) then q + 1 else q)"
  have mpos: "0 < m" using big by (simp add: m_def)
  have b: "2 ^ (n - 1) \<le> m" "m < 2 ^ n" using bit_length_bounds[OF mpos] by (simp_all add: n_def)
  have n53: "53 < n"
  proof (rule ccontr)
    assume "\<not> 53 < n"
    then have "n \<le> 53" by simp
    then have "(2::int) ^ n \<le> 2 ^ 53" by (rule power_increasing) simp
    then show False using b(2) big by (simp add: m_def)
  qed
  have ne: "n = e + 53" "n - 1 = e + 52" using n53 by (simp_all add: e_def)
  have p: "(2::int) ^ n = 2 ^ 53 * 2 ^ e" "(2::int) ^ (n - 1) = 2 ^ 52 * 2 ^ e"
    unfolding ne by (simp_all add: power_add)
  have e0: "(0::int) < 2 ^ e" by simp
  have qlo: "2 ^ 52 \<le> q"
  proof -
    have "2 ^ 52 * 2 ^ e \<le> m" using b(1) p(2) by simp
    then have "(2 ^ 52 * 2 ^ e) div 2 ^ e \<le> m div 2 ^ e" by (rule zdiv_mono1) simp
    then show ?thesis by (simp add: q_def)
  qed
  have qhi: "q < 2 ^ 53"
  proof -
    have lt: "m < 2 ^ 53 * 2 ^ e" using b(2) p(1) by simp
    have "q * 2 ^ e + r = m" unfolding q_def r_def by (rule div_mult_mod_eq)
    moreover have "0 \<le> r" unfolding r_def using e0 by (rule pos_mod_sign)
    ultimately have "q * 2 ^ e < 2 ^ 53 * 2 ^ e" using lt by linarith
    then show ?thesis using e0 by (simp only: mult_less_cancel_right_pos)
  qed
  have q'1: "2 ^ 52 \<le> q'" "q' \<le> 2 ^ 53" using qlo qhi by (auto simp: q'_def)
  have exact: "m = 2 ^ (n - 1) \<longrightarrow> q' = 2 ^ 52"
  proof
    assume "m = 2 ^ (n - 1)"
    then have m: "m = 2 ^ 52 * 2 ^ e" using p(2) by simp
    then have "q = 2 ^ 52" "r = 0" by (simp_all add: q_def r_def)
    then show "q' = 2 ^ 52" by (simp add: q'_def)
  qed
  have "Number v = sgn v * (q' * 2 ^ e)"
    by (simp add: Number_def Let_def m_def[symmetric] n_def[symmetric] e_def[symmetric]
        q_def[symmetric] r_def[symmetric] q'_def)
  then show ?thesis
    using that[of n q'] n53 b q'1 exact by (simp add: m_def e_def)
qed

lemma Number_sgn: "sgn (Number v) = sgn v"
proof (cases "\<bar>v\<bar> < 2 ^ 53")
  case True
  then show ?thesis by (simp add: Number_exact)
next
  case False
  then have "2 ^ 53 \<le> \<bar>v\<bar>" by simp
  then obtain n q' where f: "Number v = sgn v * (q' * 2 ^ (n - 53))" "2 ^ 52 \<le> q'"
    by (rule Number_large)
  define X where "X = q' * 2 ^ (n - 53)"
  have "0 < X" using f(2) by (simp add: X_def zero_less_mult_iff)
  then have "sgn X = 1" by (rule sgn_pos)
  moreover have "sgn (Number v) = sgn (sgn v) * sgn X" unfolding f(1) X_def by (rule sgn_mult)
  ultimately show ?thesis by simp
qed

lemma Number_abs_le:
  assumes "\<bar>v\<bar> \<le> 2 ^ j"
  shows "\<bar>Number v\<bar> \<le> 2 ^ j"
proof (cases "\<bar>v\<bar> < 2 ^ 53")
  case True
  then show ?thesis using assms by (simp add: Number_exact)
next
  case False
  then have big: "2 ^ 53 \<le> \<bar>v\<bar>" by simp
  then obtain n q' where f: "53 < n" "2 ^ (n - 1) \<le> \<bar>v\<bar>" "\<bar>v\<bar> < 2 ^ n"
    "Number v = sgn v * (q' * 2 ^ (n - 53))" "2 ^ 52 \<le> q'" "q' \<le> 2 ^ 53"
    "\<bar>v\<bar> = 2 ^ (n - 1) \<longrightarrow> q' = 2 ^ 52"
    by (rule Number_large)
  have vnz: "v \<noteq> 0" using big by auto
  have ab: "\<bar>Number v\<bar> = q' * 2 ^ (n - 53)"
    using f(4,5) vnz by (simp add: abs_mult abs_sgn_eq)
  have pn: "(2::int) ^ n = 2 ^ 53 * 2 ^ (n - 53)" "(2::int) ^ (n - 1) = 2 ^ 52 * 2 ^ (n - 53)"
  proof -
    have "n = 53 + (n - 53)" "n - 1 = 52 + (n - 53)" using f(1) by simp_all
    then show "(2::int) ^ n = 2 ^ 53 * 2 ^ (n - 53)" "(2::int) ^ (n - 1) = 2 ^ 52 * 2 ^ (n - 53)"
      by (metis power_add)+
  qed
  have j: "n - 1 \<le> j"
  proof (rule ccontr)
    assume "\<not> n - 1 \<le> j"
    then have "j < n - 1" by simp
    then have "(2::int) ^ j < 2 ^ (n - 1)" by (simp add: power_strict_increasing)
    then show False using f(2) assms by linarith
  qed
  show ?thesis
  proof (cases "n \<le> j")
    case True
    have "q' * 2 ^ (n - 53) \<le> 2 ^ 53 * 2 ^ (n - 53)" using f(6) by (simp add: mult_right_mono)
    also have "\<dots> = 2 ^ n" using pn(1) by simp
    also have "\<dots> \<le> 2 ^ j" using True by (simp add: power_increasing)
    finally show ?thesis using ab by simp
  next
    case False
    then have jn: "j = n - 1" using j by simp
    then have "\<bar>v\<bar> = 2 ^ (n - 1)" using f(2) assms by simp
    then have "q' = 2 ^ 52" using f(7) by simp
    then show ?thesis using ab pn(2) jn by simp
  qed
qed

lemma Number_idem: "Number (Number v) = Number v"
proof (cases "\<bar>v\<bar> < 2 ^ 53")
  case True
  then show ?thesis by (simp add: Number_exact)
next
  case False
  then have big: "2 ^ 53 \<le> \<bar>v\<bar>" by simp
  then obtain n q' where f: "53 < n" "2 ^ (n - 1) \<le> \<bar>v\<bar>" "\<bar>v\<bar> < 2 ^ n"
    "Number v = sgn v * (q' * 2 ^ (n - 53))" "2 ^ 52 \<le> q'" "q' \<le> 2 ^ 53"
    by (rule Number_large)
  define e where "e = n - 53"
  define w where "w = Number v"
  have vnz: "v \<noteq> 0" using big by auto
  have w: "w = sgn v * (q' * 2 ^ e)" using f(4) by (simp add: w_def e_def)
  have aw: "\<bar>w\<bar> = q' * 2 ^ e" using w f(5) vnz by (simp add: abs_mult abs_sgn_eq)
  have sw: "sgn w = sgn v" unfolding w_def by (rule Number_sgn)
  have ne: "n = e + 53" using f(1) by (simp add: e_def)
  show ?thesis
  proof (cases "q' = 2 ^ 53")
    case True
    have "\<bar>w\<bar> = 2 ^ (e + 53)" using aw True by (simp add: power_add)
    then have bl: "bit_length \<bar>w\<bar> = e + 54" by (intro bit_length_eq) simp_all
    have dv: "\<bar>w\<bar> div 2 ^ (e + 1) = 2 ^ 52" "\<bar>w\<bar> mod 2 ^ (e + 1) = 0"
    proof -
      have "\<bar>w\<bar> = 2 ^ 52 * 2 ^ (e + 1)" using aw True by (simp add: power_add)
      then show "\<bar>w\<bar> div 2 ^ (e + 1) = 2 ^ 52" "\<bar>w\<bar> mod 2 ^ (e + 1) = 0" by simp_all
    qed
    have "Number w = sgn w * (2 ^ 52 * 2 ^ (e + 1))"
      unfolding Number_def Let_def bl using dv by simp
    also have "\<dots> = w" using w sw True by (simp add: power_add)
    finally show ?thesis by (simp add: w_def)
  next
    case False
    then have lt: "q' < 2 ^ 53" using f(6) by simp
    have lo: "2 ^ (e + 53 - 1) \<le> \<bar>w\<bar>"
    proof -
      have "(2::int) ^ (e + 53 - 1) = 2 ^ 52 * 2 ^ e" by (simp add: power_add)
      also have "\<dots> \<le> q' * 2 ^ e" using f(5) by (simp add: mult_right_mono)
      finally show ?thesis using aw by simp
    qed
    have hi: "\<bar>w\<bar> < 2 ^ (e + 53)"
    proof -
      have "q' * 2 ^ e < 2 ^ 53 * 2 ^ e" using lt by (simp add: mult_strict_right_mono)
      then show ?thesis using aw by (simp add: power_add mult.commute)
    qed
    have bl: "bit_length \<bar>w\<bar> = e + 53" using lo hi by (intro bit_length_eq) simp_all
    have dv: "\<bar>w\<bar> div 2 ^ e = q'" "\<bar>w\<bar> mod 2 ^ e = 0" using aw by simp_all
    have "Number w = sgn w * (q' * 2 ^ e)"
      unfolding Number_def Let_def bl using dv by simp
    then show ?thesis using w sw by (simp add: w_def)
  qed
qed

subsection \<open>The outcome of a read on every input\<close>






section \<open>Scalars and instructions\<close>

text \<open>
  \<^verbatim>\<open>Instruction.params\<close> is a list of \<^verbatim>\<open>Writable\<close> objects. The objects the decoder puts there
  are instances of \<^verbatim>\<open>U8\<close>, \<^verbatim>\<open>LEB128.U32\<close>, \<^verbatim>\<open>LEB128.I32\<close>, \<^verbatim>\<open>LEB128.I33\<close>, \<^verbatim>\<open>LEB128.I64\<close>,
  \<^verbatim>\<open>F32\<close> and \<^verbatim>\<open>F64\<close>; \<^verbatim>\<open>LEB128.U64\<close> is the remaining class of the file with a
  \<^verbatim>\<open>sizeOrThrow\<close> and a \<^verbatim>\<open>writeOrThrow\<close>. \<open>Writable\<close> is their tagged union, the value being
  the only field of each class.
\<close>

datatype Writable =
    U8 byte
  | U32 int
  | I32 int
  | I33 int
  | U64 int
  | I64 int
  | F32 f32
  | F64 f64

fun Writable_sizeOrThrow :: "Writable \<Rightarrow> nat option" where
  "Writable_sizeOrThrow (U8 v) = Some 1"
| "Writable_sizeOrThrow (U32 v) = U32_sizeOrThrow v"
| "Writable_sizeOrThrow (I32 v) = Some (I32_sizeOrThrow v)"
| "Writable_sizeOrThrow (I33 v) = Some (I33_sizeOrThrow v)"
| "Writable_sizeOrThrow (U64 v) = U64_sizeOrThrow v"
| "Writable_sizeOrThrow (I64 v) = Some (I64_sizeOrThrow v)"
| "Writable_sizeOrThrow (F32 v) = Some 4"
| "Writable_sizeOrThrow (F64 v) = Some 8"

fun Writable_writeOrThrow :: "Writable \<Rightarrow> cursor \<Rightarrow> error + cursor" where
  "Writable_writeOrThrow (U8 v) c = writeUint8OrThrow c v"
| "Writable_writeOrThrow (U32 v) c = U32_writeOrThrow v c"
| "Writable_writeOrThrow (I32 v) c = I32_writeOrThrow v c"
| "Writable_writeOrThrow (I33 v) c = I33_writeOrThrow v c"
| "Writable_writeOrThrow (U64 v) c = U64_writeOrThrow v c"
| "Writable_writeOrThrow (I64 v) c = I64_writeOrThrow v c"
| "Writable_writeOrThrow (F32 v) c = writeFloat32OrThrow c v"
| "Writable_writeOrThrow (F64 v) c = writeFloat64OrThrow c v"

text \<open>
  The loops over arrays. \<^verbatim>\<open>for (const x of xs) size += f(x)\<close> adds the sizes up,
  \<^verbatim>\<open>for (const x of xs) w(x, cursor)\<close> writes one element after the other, and
  \<^verbatim>\<open>for (let i = 0; i < count.value; i++) xs.push(r(cursor))\<close> reads \<open>count\<close> elements. A
  size is \<open>None\<close> when one of the sizes it adds up does not return.
\<close>

fun sum_sizes :: "('a \<Rightarrow> nat option) \<Rightarrow> 'a list \<Rightarrow> nat option" where
  "sum_sizes f [] = Some 0"
| "sum_sizes f (x # xs) = do { a \<leftarrow> f x; b \<leftarrow> sum_sizes f xs; Some (a + b) }"

fun write_each :: "('a \<Rightarrow> cursor \<Rightarrow> error + cursor) \<Rightarrow> 'a list \<Rightarrow> cursor \<Rightarrow> error + cursor" where
  "write_each w [] c = Inr c"
| "write_each w (x # xs) c = andThen (w x c) (write_each w xs)"

fun read_times :: "nat \<Rightarrow> (cursor \<Rightarrow> error + ('a \<times> cursor)) \<Rightarrow> cursor \<Rightarrow> error + ('a list \<times> cursor)" where
  "read_times 0 r c = Inr ([], c)"
| "read_times (Suc n) r c =
     andThen (r c) (\<lambda>(x, c). andThen (read_times n r c) (\<lambda>(xs, c). Inr (x # xs, c)))"

datatype Instruction = Instruction (opcode: byte) (params: "Writable list")

definition Instruction_sizeOrThrow :: "Instruction \<Rightarrow> nat option" where
  "Instruction_sizeOrThrow i = do { n \<leftarrow> sum_sizes Writable_sizeOrThrow (params i); Some (1 + n) }"

definition Instruction_writeOrThrow :: "Instruction \<Rightarrow> cursor \<Rightarrow> error + cursor" where
  "Instruction_writeOrThrow i c =
     andThen (writeUint8OrThrow c (opcode i)) (write_each Writable_writeOrThrow (params i))"

text \<open>One catch clause of \<^verbatim>\<open>try_table\<close> (opcode \<open>0x1f\<close>): the body of the loop over \<^verbatim>\<open>count\<close>.\<close>

definition catch_readOrThrow :: "cursor \<Rightarrow> error + (Writable list \<times> cursor)" where
  "catch_readOrThrow c =
     andThen (readUint8OrThrow c) (\<lambda>(kind, c).
       if kind < 2
       then andThen (U32_readOrThrow c) (\<lambda>(tag, c).
              andThen (U32_readOrThrow c) (\<lambda>(label, c). Inr ([U8 kind, U32 tag, U32 label], c)))
       else andThen (U32_readOrThrow c) (\<lambda>(label, c). Inr ([U8 kind, U32 label], c)))"

text \<open>
  \<^verbatim>\<open>Instruction.readOrThrow\<close>: the \<^verbatim>\<open>switch\<close> over the opcode, the cases in the order of the
  source. The runs of consecutive \<^verbatim>\<open>case\<close> labels that share a body (\<open>0x20\<close> to \<open>0x26\<close>,
  \<open>0x28\<close> to \<open>0x3e\<close>, \<open>0x45\<close> to \<open>0xc4\<close>) are written as intervals. The inner \<^verbatim>\<open>switch\<close> of
  \<open>0xfc\<close> is over the number read as the sub-opcode.
\<close>

definition subopcode_readOrThrow :: "byte \<Rightarrow> int \<Rightarrow> cursor \<Rightarrow> error + (Instruction \<times> cursor)" where
  "subopcode_readOrThrow opc subopcode c =
     (if 0x00 \<le> subopcode \<and> subopcode \<le> 0x07
      then Inr (Instruction opc [U32 subopcode], c)
      else if subopcode = 0x08 \<or> subopcode = 0x0a \<or> subopcode = 0x0c \<or> subopcode = 0x0e
      then andThen (U32_readOrThrow c) (\<lambda>(a, c).
             andThen (U32_readOrThrow c) (\<lambda>(b, c).
               Inr (Instruction opc [U32 subopcode, U32 a, U32 b], c)))
      else if subopcode = 0x09 \<or> subopcode = 0x0b \<or> subopcode = 0x0d \<or> subopcode = 0x0f
              \<or> subopcode = 0x10 \<or> subopcode = 0x11
      then andThen (U32_readOrThrow c) (\<lambda>(a, c).
             Inr (Instruction opc [U32 subopcode, U32 a], c))
      else Inl (UnknownSubOpcode subopcode))"

definition Instruction_readOrThrow :: "cursor \<Rightarrow> error + (Instruction \<times> cursor)" where
  "Instruction_readOrThrow c =
     andThen (readUint8OrThrow c) (\<lambda>(opcode, c).
       if opcode = 0x00 \<or> opcode = 0x01 then Inr (Instruction opcode [], c)
       else if opcode = 0x02 \<or> opcode = 0x03 \<or> opcode = 0x04
       then andThen (I33_readOrThrow c) (\<lambda>(a, c). Inr (Instruction opcode [I33 a], c))
       else if opcode = 0x05 then Inr (Instruction opcode [], c)
       else if opcode = 0x08
       then andThen (U32_readOrThrow c) (\<lambda>(a, c). Inr (Instruction opcode [U32 a], c))
       else if opcode = 0x0a then Inr (Instruction opcode [], c)
       else if opcode = 0x0b then Inr (Instruction opcode [], c)
       else if opcode = 0x0c \<or> opcode = 0x0d
       then andThen (U32_readOrThrow c) (\<lambda>(a, c). Inr (Instruction opcode [U32 a], c))
       else if opcode = 0x0e
       then andThen (U32_readOrThrow c) (\<lambda>(count, c).
              andThen (read_times (nat count) U32_readOrThrow c) (\<lambda>(labels, c).
                andThen (U32_readOrThrow c) (\<lambda>(fallback, c).
                  Inr (Instruction opcode ([U32 count] @ map U32 labels @ [U32 fallback]), c))))
       else if opcode = 0x0f then Inr (Instruction opcode [], c)
       else if opcode = 0x10
       then andThen (U32_readOrThrow c) (\<lambda>(a, c). Inr (Instruction opcode [U32 a], c))
       else if opcode = 0x11
       then andThen (U32_readOrThrow c) (\<lambda>(a, c).
              andThen (U32_readOrThrow c) (\<lambda>(b, c). Inr (Instruction opcode [U32 a, U32 b], c)))
       else if opcode = 0x12
       then andThen (U32_readOrThrow c) (\<lambda>(a, c). Inr (Instruction opcode [U32 a], c))
       else if opcode = 0x13
       then andThen (U32_readOrThrow c) (\<lambda>(a, c).
              andThen (U32_readOrThrow c) (\<lambda>(b, c). Inr (Instruction opcode [U32 a, U32 b], c)))
       else if opcode = 0x14 \<or> opcode = 0x15
       then andThen (U32_readOrThrow c) (\<lambda>(a, c). Inr (Instruction opcode [U32 a], c))
       else if opcode = 0x1a \<or> opcode = 0x1b then Inr (Instruction opcode [], c)
       else if opcode = 0x1c
       then andThen (U32_readOrThrow c) (\<lambda>(count, c).
              andThen (read_times (nat count) U32_readOrThrow c) (\<lambda>(types, c).
                Inr (Instruction opcode ([U32 count] @ map U32 types), c)))
       else if opcode = 0x1f
       then andThen (I33_readOrThrow c) (\<lambda>(blocktype, c).
              andThen (U32_readOrThrow c) (\<lambda>(count, c).
                andThen (read_times (nat count) catch_readOrThrow c) (\<lambda>(catches, c).
                  Inr (Instruction opcode ([I33 blocktype, U32 count] @ concat catches), c))))
       else if 0x20 \<le> opcode \<and> opcode \<le> 0x26
       then andThen (U32_readOrThrow c) (\<lambda>(a, c). Inr (Instruction opcode [U32 a], c))
       else if 0x28 \<le> opcode \<and> opcode \<le> 0x3e
       then andThen (U32_readOrThrow c) (\<lambda>(a, c).
              andThen (U32_readOrThrow c) (\<lambda>(b, c). Inr (Instruction opcode [U32 a, U32 b], c)))
       else if opcode = 0x3f \<or> opcode = 0x40
       then andThen (U32_readOrThrow c) (\<lambda>(a, c). Inr (Instruction opcode [U32 a], c))
       else if opcode = 0x41
       then andThen (I32_readOrThrow c) (\<lambda>(a, c). Inr (Instruction opcode [I32 a], c))
       else if opcode = 0x42
       then andThen (I64_readOrThrow c) (\<lambda>(a, c). Inr (Instruction opcode [I64 a], c))
       else if opcode = 0x43
       then andThen (readFloat32OrThrow c) (\<lambda>(a, c). Inr (Instruction opcode [F32 a], c))
       else if opcode = 0x44
       then andThen (readFloat64OrThrow c) (\<lambda>(a, c). Inr (Instruction opcode [F64 a], c))
       else if 0x45 \<le> opcode \<and> opcode \<le> 0xc4 then Inr (Instruction opcode [], c)
       else if opcode = 0xd0
       then andThen (I33_readOrThrow c) (\<lambda>(a, c). Inr (Instruction opcode [I33 a], c))
       else if opcode = 0xd1 then Inr (Instruction opcode [], c)
       else if opcode = 0xd2
       then andThen (U32_readOrThrow c) (\<lambda>(a, c). Inr (Instruction opcode [U32 a], c))
       else if opcode = 0xd3 \<or> opcode = 0xd4 then Inr (Instruction opcode [], c)
       else if opcode = 0xd5 \<or> opcode = 0xd6
       then andThen (U32_readOrThrow c) (\<lambda>(a, c). Inr (Instruction opcode [U32 a], c))
       else if opcode = 0xfc
       then andThen (U32_readOrThrow c) (\<lambda>(subopcode, c). subopcode_readOrThrow opcode subopcode c)
       else Inl (UnknownOpcode opcode))"

subsection \<open>Every read leaves a suffix of the input\<close>

definition nonincreasing :: "(cursor \<Rightarrow> error + ('a \<times> cursor)) \<Rightarrow> bool" where
  "nonincreasing r \<longleftrightarrow> (\<forall>c v c'. r c = Inr (v, c') \<longrightarrow> length (after c') \<le> length (after c))"

definition decreasing :: "(cursor \<Rightarrow> error + ('a \<times> cursor)) \<Rightarrow> bool" where
  "decreasing r \<longleftrightarrow> (\<forall>c v c'. r c = Inr (v, c') \<longrightarrow> length (after c') < length (after c))"

lemma andThen_cong [fundef_cong]:
  "m = m' \<Longrightarrow> (\<And>x. m' = Inr x \<Longrightarrow> f x = f' x) \<Longrightarrow> andThen m f = andThen m' f'"
  by (cases m') (simp_all add: andThen_def)

lemma decreasing_nonincreasing: "decreasing r \<Longrightarrow> nonincreasing r"
  by (auto simp: decreasing_def nonincreasing_def intro: less_imp_le)

lemma nonincreasing_return: "nonincreasing (\<lambda>c. Inr (x, c))"
  by (simp add: nonincreasing_def)

lemma nonincreasing_throw: "nonincreasing (\<lambda>c. Inl e)"
  by (simp add: nonincreasing_def)

lemma nonincreasing_andThen:
  "nonincreasing r \<Longrightarrow> (\<And>x. nonincreasing (f x)) \<Longrightarrow>
   nonincreasing (\<lambda>c. andThen (r c) (\<lambda>(x, c'). f x c'))"
  unfolding nonincreasing_def andThen_Inr_iff by (fastforce simp: le_trans)

lemma decreasing_andThen:
  "decreasing r \<Longrightarrow> (\<And>x. nonincreasing (f x)) \<Longrightarrow>
   decreasing (\<lambda>c. andThen (r c) (\<lambda>(x, c'). f x c'))"
  unfolding nonincreasing_def decreasing_def andThen_Inr_iff by (fastforce simp: less_le_trans)

lemma nonincreasing_if:
  "nonincreasing r \<Longrightarrow> nonincreasing s \<Longrightarrow> nonincreasing (\<lambda>c. if b then r c else s c)"
  by (simp add: nonincreasing_def)

lemma decreasing_readUint8OrThrow: "decreasing readUint8OrThrow"
  by (auto simp: decreasing_def readUint8OrThrow_def split: list.splits)

lemma nonincreasing_readOrThrow: "nonincreasing (\<lambda>c. readOrThrow c n)"
  by (auto simp: nonincreasing_def readOrThrow_def split: if_splits)

lemma decreasing_readFloat32OrThrow: "decreasing readFloat32OrThrow"
  by (auto simp: decreasing_def readFloat32OrThrow_def split: list.splits)

lemma decreasing_readFloat64OrThrow: "decreasing readFloat64OrThrow"
  by (auto simp: decreasing_def readFloat64OrThrow_def split: list.splits)

lemma decreasing_leb_reader: "R \<in> leb_readers \<Longrightarrow> decreasing R"
  unfolding decreasing_def
proof (intro allI impI)
  fix c v c'
  assume "R \<in> leb_readers" "R c = Inr (v, c')"
  then obtain bs where "leb_ok 0 bs" "after c = bs @ after c'"
    using leb_reader_consumes by blast
  then show "length (after c') < length (after c)" by (simp add: leb_ok_def)
qed

lemma decreasing_U32 [simp]: "decreasing U32_readOrThrow"
  and decreasing_I32 [simp]: "decreasing I32_readOrThrow"
  and decreasing_I33 [simp]: "decreasing I33_readOrThrow"
  and decreasing_I64 [simp]: "decreasing I64_readOrThrow"
  by (simp_all add: decreasing_leb_reader leb_readers_def)

lemma nonincreasing_read_times: "nonincreasing r \<Longrightarrow> nonincreasing (read_times n r)"
proof (induction n)
  case 0
  show ?case by (simp add: nonincreasing_def)
next
  case (Suc n)
  have "nonincreasing (\<lambda>c. andThen (r c) (\<lambda>(x, c).
          andThen (read_times n r c) (\<lambda>(xs, c). Inr (x # xs, c))))"
    by (intro nonincreasing_andThen nonincreasing_return Suc)
  then show ?case by (simp add: nonincreasing_def)
qed

lemmas nonincreasing_intros =
  nonincreasing_andThen nonincreasing_return nonincreasing_throw nonincreasing_if
  nonincreasing_read_times nonincreasing_readOrThrow
  decreasing_nonincreasing[OF decreasing_readUint8OrThrow]
  decreasing_nonincreasing[OF decreasing_U32] decreasing_nonincreasing[OF decreasing_I32]
  decreasing_nonincreasing[OF decreasing_I33] decreasing_nonincreasing[OF decreasing_I64]
  decreasing_nonincreasing[OF decreasing_readFloat32OrThrow]
  decreasing_nonincreasing[OF decreasing_readFloat64OrThrow]

lemma nonincreasing_catch: "nonincreasing catch_readOrThrow"
  unfolding catch_readOrThrow_def by (intro nonincreasing_intros)

lemma nonincreasing_subopcode: "nonincreasing (subopcode_readOrThrow opc subopcode)"
  unfolding subopcode_readOrThrow_def by (intro nonincreasing_intros)

lemma decreasing_Instruction: "decreasing Instruction_readOrThrow"
  unfolding Instruction_readOrThrow_def
  by (intro decreasing_andThen decreasing_readUint8OrThrow nonincreasing_intros
      nonincreasing_catch nonincreasing_subopcode)

lemma Instruction_read_shrinks:
  "Instruction_readOrThrow c = Inr (i, c') \<Longrightarrow> length (after c') < length (after c)"
  using decreasing_Instruction by (auto simp: decreasing_def)

subsection \<open>Instruction sequences\<close>

text \<open>
  The loop that reads a constant expression stands ten times in the source, with the
  same text (in \<^verbatim>\<open>GlobalSection\<close>, \<^verbatim>\<open>ElementSection\<close> and \<^verbatim>\<open>DataSection\<close>):
  \<^verbatim>\<open>while (true) { const instruction = Instruction.readOrThrow(cursor);
  instructions.push(instruction); if (instruction.opcode === 0x0b) break }\<close>.
  The second loop is the one of \<^verbatim>\<open>FunctionBody.readOrThrow\<close>, which reads instructions
  while bytes remain.
\<close>

function expression_readOrThrow :: "cursor \<Rightarrow> error + (Instruction list \<times> cursor)" where
  "expression_readOrThrow c =
     andThen (Instruction_readOrThrow c) (\<lambda>(instruction, c').
       if opcode instruction = 0x0b then Inr ([instruction], c')
       else andThen (expression_readOrThrow c') (\<lambda>(instructions, c'').
              Inr (instruction # instructions, c'')))"
  by pat_completeness auto
termination
  by (relation "measure (\<lambda>c. length (after c))") (auto dest: Instruction_read_shrinks)

declare expression_readOrThrow.simps [simp del]

function instructions_readOrThrow :: "cursor \<Rightarrow> error + (Instruction list \<times> cursor)" where
  "instructions_readOrThrow c =
     (if remaining c > 0
      then andThen (Instruction_readOrThrow c) (\<lambda>(instruction, c').
             andThen (instructions_readOrThrow c') (\<lambda>(instructions, c'').
               Inr (instruction # instructions, c'')))
      else Inr ([], c))"
  by pat_completeness auto
termination
  by (relation "measure (\<lambda>c. length (after c))") (auto dest: Instruction_read_shrinks)

declare instructions_readOrThrow.simps [simp del]

section \<open>Sections\<close>

text \<open>
  Three idioms recur in every section of \<^verbatim>\<open>mod.ts\<close> and are written once here.

  \<^item> A byte string with its length in front:
    \<^verbatim>\<open>cursor.readOrThrow(LEB128.U32.readOrThrow(cursor).value)\<close>,
    \<^verbatim>\<open>new LEB128.U32(x.length).writeOrThrow(cursor); cursor.writeOrThrow(x)\<close> and
    \<^verbatim>\<open>new LEB128.U32(x.length).sizeOrThrow() + x.length\<close>.
  \<^item> An array with its count in front: \<^verbatim>\<open>const count = LEB128.U32.readOrThrow(cursor)\<close>
    followed by the loop \<^verbatim>\<open>for (let i = 0; i < count.value; i++)\<close>, and
    \<^verbatim>\<open>new LEB128.U32(xs.length)\<close> followed by the loop over \<^verbatim>\<open>xs\<close> when writing or sizing.
  \<^item> \<^verbatim>\<open>flag & 0x01 ? LEB128.U32.readOrThrow(cursor).value : null\<close> for the optional maximum
    of a table or memory, and \<^verbatim>\<open>if (max != null)\<close> when writing or sizing it.
\<close>

definition bytes_readOrThrow :: "cursor \<Rightarrow> error + (byte list \<times> cursor)" where
  "bytes_readOrThrow c = andThen (U32_readOrThrow c) (\<lambda>(n, c). readOrThrow c (nat n))"

definition bytes_writeOrThrow :: "byte list \<Rightarrow> cursor \<Rightarrow> error + cursor" where
  "bytes_writeOrThrow x c = andThen (U32_writeOrThrow (int (length x)) c) (\<lambda>c. writeOrThrow c x)"

definition bytes_sizeOrThrow :: "byte list \<Rightarrow> nat option" where
  "bytes_sizeOrThrow x = do { n \<leftarrow> U32_sizeOrThrow (int (length x)); Some (n + length x) }"

definition counted_readOrThrow ::
  "(cursor \<Rightarrow> error + ('a \<times> cursor)) \<Rightarrow> cursor \<Rightarrow> error + ('a list \<times> cursor)" where
  "counted_readOrThrow r c = andThen (U32_readOrThrow c) (\<lambda>(count, c). read_times (nat count) r c)"

definition counted_writeOrThrow ::
  "('a \<Rightarrow> cursor \<Rightarrow> error + cursor) \<Rightarrow> 'a list \<Rightarrow> cursor \<Rightarrow> error + cursor" where
  "counted_writeOrThrow w xs c = andThen (U32_writeOrThrow (int (length xs)) c) (write_each w xs)"

definition counted_sizeOrThrow :: "('a \<Rightarrow> nat option) \<Rightarrow> 'a list \<Rightarrow> nat option" where
  "counted_sizeOrThrow f xs =
     do { n \<leftarrow> U32_sizeOrThrow (int (length xs)); m \<leftarrow> sum_sizes f xs; Some (n + m) }"

definition max_readOrThrow :: "byte \<Rightarrow> cursor \<Rightarrow> error + (int option \<times> cursor)" where
  "max_readOrThrow flag c =
     (if flag AND 0x01 \<noteq> 0 then andThen (U32_readOrThrow c) (\<lambda>(m, c). Inr (Some m, c))
      else Inr (None, c))"

definition max_writeOrThrow :: "int option \<Rightarrow> cursor \<Rightarrow> error + cursor" where
  "max_writeOrThrow m c = (case m of None \<Rightarrow> Inr c | Some v \<Rightarrow> U32_writeOrThrow v c)"

definition max_sizeOrThrow :: "int option \<Rightarrow> nat option" where
  "max_sizeOrThrow m = (case m of None \<Rightarrow> Some 0 | Some v \<Rightarrow> U32_sizeOrThrow v)"

definition u8_writeOrThrow :: "byte \<Rightarrow> cursor \<Rightarrow> error + cursor" where
  "u8_writeOrThrow x c = writeUint8OrThrow c x"

definition bool_byte :: "bool \<Rightarrow> byte" where
  "bool_byte mutable = (if mutable then 1 else 0)"

subsection \<open>Type section\<close>

datatype TypeBody =
    FuncType "byte list" "byte list"
  | StructType "(byte \<times> bool) list"
  | ArrayType byte bool

fun TypeBody_kind :: "TypeBody \<Rightarrow> byte" where
  "TypeBody_kind (FuncType parameters results) = 0x60"
| "TypeBody_kind (StructType members) = 0x5E"
| "TypeBody_kind (ArrayType valtype mutable) = 0x5F"

fun TypeBody_sizeOrThrow :: "TypeBody \<Rightarrow> nat option" where
  "TypeBody_sizeOrThrow (FuncType parameters results) =
     do { a \<leftarrow> U32_sizeOrThrow (int (length parameters));
          b \<leftarrow> U32_sizeOrThrow (int (length results));
          Some (a + length parameters + b + length results) }"
| "TypeBody_sizeOrThrow (StructType members) = counted_sizeOrThrow (\<lambda>field. Some (1 + 1)) members"
| "TypeBody_sizeOrThrow (ArrayType valtype mutable) = Some (1 + 1)"

definition field_writeOrThrow :: "byte \<times> bool \<Rightarrow> cursor \<Rightarrow> error + cursor" where
  "field_writeOrThrow field c =
     (case field of (valtype, mutable) \<Rightarrow>
        andThen (writeUint8OrThrow c valtype) (\<lambda>c. writeUint8OrThrow c (bool_byte mutable)))"

fun TypeBody_writeOrThrow :: "TypeBody \<Rightarrow> cursor \<Rightarrow> error + cursor" where
  "TypeBody_writeOrThrow (FuncType parameters results) c =
     andThen (counted_writeOrThrow u8_writeOrThrow parameters c)
       (counted_writeOrThrow u8_writeOrThrow results)"
| "TypeBody_writeOrThrow (StructType members) c = counted_writeOrThrow field_writeOrThrow members c"
| "TypeBody_writeOrThrow (ArrayType valtype mutable) c =
     andThen (writeUint8OrThrow c valtype) (\<lambda>c. writeUint8OrThrow c (bool_byte mutable))"

definition FuncType_readOrThrow :: "cursor \<Rightarrow> error + (TypeBody \<times> cursor)" where
  "FuncType_readOrThrow c =
     andThen (counted_readOrThrow readUint8OrThrow c) (\<lambda>(parameters, c).
       andThen (counted_readOrThrow readUint8OrThrow c) (\<lambda>(results, c).
         Inr (FuncType parameters results, c)))"

definition field_readOrThrow :: "cursor \<Rightarrow> error + ((byte \<times> bool) \<times> cursor)" where
  "field_readOrThrow c =
     andThen (readUint8OrThrow c) (\<lambda>(valtype, c).
       andThen (readUint8OrThrow c) (\<lambda>(mutable, c). Inr ((valtype, mutable = 1), c)))"

definition StructType_readOrThrow :: "cursor \<Rightarrow> error + (TypeBody \<times> cursor)" where
  "StructType_readOrThrow c =
     andThen (counted_readOrThrow field_readOrThrow c) (\<lambda>(members, c). Inr (StructType members, c))"

definition ArrayType_readOrThrow :: "cursor \<Rightarrow> error + (TypeBody \<times> cursor)" where
  "ArrayType_readOrThrow c =
     andThen (readUint8OrThrow c) (\<lambda>(valtype, c).
       andThen (readUint8OrThrow c) (\<lambda>(mutable, c). Inr (ArrayType valtype (mutable = 1), c)))"

datatype TypeDescriptor = TypeDescriptor byte "int list" TypeBody

text \<open>The bodies of the loops over \<^verbatim>\<open>this.descriptors\<close> in \<^verbatim>\<open>TypeSection\<close>.\<close>

fun TypeDescriptor_sizeOrThrow :: "TypeDescriptor \<Rightarrow> nat option" where
  "TypeDescriptor_sizeOrThrow (TypeDescriptor prefix subtypes body) =
     (if prefix = 0x60
      then do { b \<leftarrow> TypeBody_sizeOrThrow body; Some (1 + b) }
      else do { s \<leftarrow> (if prefix = 0x4E \<or> prefix = 0x4D
                      then counted_sizeOrThrow U32_sizeOrThrow subtypes
                      else Some 0);
                b \<leftarrow> TypeBody_sizeOrThrow body;
                Some (1 + s + 1 + b) })"

fun TypeDescriptor_writeOrThrow :: "TypeDescriptor \<Rightarrow> cursor \<Rightarrow> error + cursor" where
  "TypeDescriptor_writeOrThrow (TypeDescriptor prefix subtypes body) c =
     andThen (writeUint8OrThrow c prefix) (\<lambda>c.
       if prefix = 0x60 then TypeBody_writeOrThrow body c
       else andThen (if prefix = 0x4E \<or> prefix = 0x4D
                     then counted_writeOrThrow U32_writeOrThrow subtypes c
                     else Inr c) (\<lambda>c.
              andThen (writeUint8OrThrow c (TypeBody_kind body)) (TypeBody_writeOrThrow body)))"

definition TypeDescriptor_readOrThrow :: "cursor \<Rightarrow> error + (TypeDescriptor \<times> cursor)" where
  "TypeDescriptor_readOrThrow c =
     andThen (readUint8OrThrow c) (\<lambda>(prefix, c).
       if prefix = 0x60
       then andThen (FuncType_readOrThrow c) (\<lambda>(body, c). Inr (TypeDescriptor prefix [] body, c))
       else andThen (if prefix = 0x4E \<or> prefix = 0x4D
                     then counted_readOrThrow U32_readOrThrow c
                     else Inr ([], c)) (\<lambda>(subtypes, c).
              andThen (readUint8OrThrow c) (\<lambda>(kind, c).
                if kind = 0x60
                then andThen (FuncType_readOrThrow c) (\<lambda>(body, c).
                       Inr (TypeDescriptor prefix subtypes body, c))
                else if kind = 0x5E
                then andThen (StructType_readOrThrow c) (\<lambda>(body, c).
                       Inr (TypeDescriptor prefix subtypes body, c))
                else if kind = 0x5F
                then andThen (ArrayType_readOrThrow c) (\<lambda>(body, c).
                       Inr (TypeDescriptor prefix subtypes body, c))
                else Inl (UnknownTypeKind kind))))"

subsection \<open>Import section\<close>

datatype ImportBody =
    FunctionImport int
  | TableImport byte byte int "int option"
  | MemoryImport byte int "int option"
  | GlobalImport byte byte

fun ImportBody_kind :: "ImportBody \<Rightarrow> byte" where
  "ImportBody_kind (FunctionImport typeidx) = 0x00"
| "ImportBody_kind (TableImport reftype flag minimum maximum) = 0x01"
| "ImportBody_kind (MemoryImport flag minimum maximum) = 0x02"
| "ImportBody_kind (GlobalImport valtype mutable) = 0x03"

fun ImportBody_sizeOrThrow :: "ImportBody \<Rightarrow> nat option" where
  "ImportBody_sizeOrThrow (FunctionImport typeidx) = U32_sizeOrThrow typeidx"
| "ImportBody_sizeOrThrow (TableImport reftype flag minimum maximum) =
     do { a \<leftarrow> U32_sizeOrThrow minimum; b \<leftarrow> max_sizeOrThrow maximum; Some (1 + 1 + a + b) }"
| "ImportBody_sizeOrThrow (MemoryImport flag minimum maximum) =
     do { a \<leftarrow> U32_sizeOrThrow minimum; b \<leftarrow> max_sizeOrThrow maximum; Some (1 + a + b) }"
| "ImportBody_sizeOrThrow (GlobalImport valtype mutable) = Some (1 + 1)"

fun ImportBody_writeOrThrow :: "ImportBody \<Rightarrow> cursor \<Rightarrow> error + cursor" where
  "ImportBody_writeOrThrow (FunctionImport typeidx) c = U32_writeOrThrow typeidx c"
| "ImportBody_writeOrThrow (TableImport reftype flag minimum maximum) c =
     andThen (writeUint8OrThrow c reftype) (\<lambda>c.
       andThen (writeUint8OrThrow c flag) (\<lambda>c.
         andThen (U32_writeOrThrow minimum c) (max_writeOrThrow maximum)))"
| "ImportBody_writeOrThrow (MemoryImport flag minimum maximum) c =
     andThen (writeUint8OrThrow c flag) (\<lambda>c.
       andThen (U32_writeOrThrow minimum c) (max_writeOrThrow maximum))"
| "ImportBody_writeOrThrow (GlobalImport valtype mutable) c =
     andThen (writeUint8OrThrow c valtype) (\<lambda>c. writeUint8OrThrow c mutable)"

definition FunctionImport_readOrThrow :: "cursor \<Rightarrow> error + (ImportBody \<times> cursor)" where
  "FunctionImport_readOrThrow c =
     andThen (U32_readOrThrow c) (\<lambda>(typeidx, c). Inr (FunctionImport typeidx, c))"

definition TableImport_readOrThrow :: "cursor \<Rightarrow> error + (ImportBody \<times> cursor)" where
  "TableImport_readOrThrow c =
     andThen (readUint8OrThrow c) (\<lambda>(reftype, c).
       andThen (readUint8OrThrow c) (\<lambda>(flag, c).
         andThen (U32_readOrThrow c) (\<lambda>(minimum, c).
           andThen (max_readOrThrow flag c) (\<lambda>(maximum, c).
             Inr (TableImport reftype flag minimum maximum, c)))))"

definition MemoryImport_readOrThrow :: "cursor \<Rightarrow> error + (ImportBody \<times> cursor)" where
  "MemoryImport_readOrThrow c =
     andThen (readUint8OrThrow c) (\<lambda>(flag, c).
       andThen (U32_readOrThrow c) (\<lambda>(minimum, c).
         andThen (max_readOrThrow flag c) (\<lambda>(maximum, c).
           Inr (MemoryImport flag minimum maximum, c))))"

definition GlobalImport_readOrThrow :: "cursor \<Rightarrow> error + (ImportBody \<times> cursor)" where
  "GlobalImport_readOrThrow c =
     andThen (readUint8OrThrow c) (\<lambda>(valtype, c).
       andThen (readUint8OrThrow c) (\<lambda>(mutable, c). Inr (GlobalImport valtype mutable, c)))"

datatype ImportDescriptor = ImportDescriptor "byte list" "byte list" ImportBody

fun ImportDescriptor_sizeOrThrow :: "ImportDescriptor \<Rightarrow> nat option" where
  "ImportDescriptor_sizeOrThrow (ImportDescriptor from_module name body) =
     do { a \<leftarrow> bytes_sizeOrThrow from_module; b \<leftarrow> bytes_sizeOrThrow name;
          d \<leftarrow> ImportBody_sizeOrThrow body; Some (a + b + 1 + d) }"

fun ImportDescriptor_writeOrThrow :: "ImportDescriptor \<Rightarrow> cursor \<Rightarrow> error + cursor" where
  "ImportDescriptor_writeOrThrow (ImportDescriptor from_module name body) c =
     andThen (bytes_writeOrThrow from_module c) (\<lambda>c.
       andThen (bytes_writeOrThrow name c) (\<lambda>c.
         andThen (writeUint8OrThrow c (ImportBody_kind body)) (ImportBody_writeOrThrow body)))"

definition ImportDescriptor_readOrThrow :: "cursor \<Rightarrow> error + (ImportDescriptor \<times> cursor)" where
  "ImportDescriptor_readOrThrow c =
     andThen (bytes_readOrThrow c) (\<lambda>(from_module, c).
       andThen (bytes_readOrThrow c) (\<lambda>(name, c).
         andThen (readUint8OrThrow c) (\<lambda>(kind, c).
           if kind = 0x00
           then andThen (FunctionImport_readOrThrow c) (\<lambda>(body, c).
                  Inr (ImportDescriptor from_module name body, c))
           else if kind = 0x01
           then andThen (TableImport_readOrThrow c) (\<lambda>(body, c).
                  Inr (ImportDescriptor from_module name body, c))
           else if kind = 0x02
           then andThen (MemoryImport_readOrThrow c) (\<lambda>(body, c).
                  Inr (ImportDescriptor from_module name body, c))
           else if kind = 0x03
           then andThen (GlobalImport_readOrThrow c) (\<lambda>(body, c).
                  Inr (ImportDescriptor from_module name body, c))
           else Inl (UnknownImport kind))))"

subsection \<open>Table, memory, global and export sections\<close>

datatype TableDescriptor = TableDescriptor byte byte int "int option"

fun TableDescriptor_sizeOrThrow :: "TableDescriptor \<Rightarrow> nat option" where
  "TableDescriptor_sizeOrThrow (TableDescriptor reftype flag minimum maximum) =
     do { a \<leftarrow> U32_sizeOrThrow minimum; b \<leftarrow> max_sizeOrThrow maximum; Some (1 + 1 + a + b) }"

fun TableDescriptor_writeOrThrow :: "TableDescriptor \<Rightarrow> cursor \<Rightarrow> error + cursor" where
  "TableDescriptor_writeOrThrow (TableDescriptor reftype flag minimum maximum) c =
     andThen (writeUint8OrThrow c reftype) (\<lambda>c.
       andThen (writeUint8OrThrow c flag) (\<lambda>c.
         andThen (U32_writeOrThrow minimum c) (max_writeOrThrow maximum)))"

definition TableDescriptor_readOrThrow :: "cursor \<Rightarrow> error + (TableDescriptor \<times> cursor)" where
  "TableDescriptor_readOrThrow c =
     andThen (readUint8OrThrow c) (\<lambda>(reftype, c).
       andThen (readUint8OrThrow c) (\<lambda>(flag, c).
         andThen (U32_readOrThrow c) (\<lambda>(minimum, c).
           andThen (max_readOrThrow flag c) (\<lambda>(maximum, c).
             Inr (TableDescriptor reftype flag minimum maximum, c)))))"

datatype MemoryDescriptor = MemoryDescriptor byte int "int option"

fun MemoryDescriptor_sizeOrThrow :: "MemoryDescriptor \<Rightarrow> nat option" where
  "MemoryDescriptor_sizeOrThrow (MemoryDescriptor flag minimum maximum) =
     do { a \<leftarrow> U32_sizeOrThrow minimum; b \<leftarrow> max_sizeOrThrow maximum; Some (1 + a + b) }"

fun MemoryDescriptor_writeOrThrow :: "MemoryDescriptor \<Rightarrow> cursor \<Rightarrow> error + cursor" where
  "MemoryDescriptor_writeOrThrow (MemoryDescriptor flag minimum maximum) c =
     andThen (writeUint8OrThrow c flag) (\<lambda>c.
       andThen (U32_writeOrThrow minimum c) (max_writeOrThrow maximum))"

definition MemoryDescriptor_readOrThrow :: "cursor \<Rightarrow> error + (MemoryDescriptor \<times> cursor)" where
  "MemoryDescriptor_readOrThrow c =
     andThen (readUint8OrThrow c) (\<lambda>(flag, c).
       andThen (U32_readOrThrow c) (\<lambda>(minimum, c).
         andThen (max_readOrThrow flag c) (\<lambda>(maximum, c).
           Inr (MemoryDescriptor flag minimum maximum, c))))"

datatype GlobalDescriptor = GlobalDescriptor byte byte "Instruction list"

fun GlobalDescriptor_sizeOrThrow :: "GlobalDescriptor \<Rightarrow> nat option" where
  "GlobalDescriptor_sizeOrThrow (GlobalDescriptor valtype mutable instructions) =
     do { a \<leftarrow> sum_sizes Instruction_sizeOrThrow instructions; Some (1 + 1 + a) }"

fun GlobalDescriptor_writeOrThrow :: "GlobalDescriptor \<Rightarrow> cursor \<Rightarrow> error + cursor" where
  "GlobalDescriptor_writeOrThrow (GlobalDescriptor valtype mutable instructions) c =
     andThen (writeUint8OrThrow c valtype) (\<lambda>c.
       andThen (writeUint8OrThrow c mutable) (write_each Instruction_writeOrThrow instructions))"

definition GlobalDescriptor_readOrThrow :: "cursor \<Rightarrow> error + (GlobalDescriptor \<times> cursor)" where
  "GlobalDescriptor_readOrThrow c =
     andThen (readUint8OrThrow c) (\<lambda>(valtype, c).
       andThen (readUint8OrThrow c) (\<lambda>(mutable, c).
         andThen (expression_readOrThrow c) (\<lambda>(instructions, c).
           Inr (GlobalDescriptor valtype mutable instructions, c))))"

datatype ExportDescriptor = ExportDescriptor "byte list" byte int

fun ExportDescriptor_sizeOrThrow :: "ExportDescriptor \<Rightarrow> nat option" where
  "ExportDescriptor_sizeOrThrow (ExportDescriptor name kind xidx) =
     do { a \<leftarrow> bytes_sizeOrThrow name; b \<leftarrow> U32_sizeOrThrow xidx; Some (a + 1 + b) }"

fun ExportDescriptor_writeOrThrow :: "ExportDescriptor \<Rightarrow> cursor \<Rightarrow> error + cursor" where
  "ExportDescriptor_writeOrThrow (ExportDescriptor name kind xidx) c =
     andThen (bytes_writeOrThrow name c) (\<lambda>c.
       andThen (writeUint8OrThrow c kind) (U32_writeOrThrow xidx))"

definition ExportDescriptor_readOrThrow :: "cursor \<Rightarrow> error + (ExportDescriptor \<times> cursor)" where
  "ExportDescriptor_readOrThrow c =
     andThen (bytes_readOrThrow c) (\<lambda>(name, c).
       andThen (readUint8OrThrow c) (\<lambda>(kind, c).
         andThen (U32_readOrThrow c) (\<lambda>(xidx, c). Inr (ExportDescriptor name kind xidx, c))))"

subsection \<open>Element section\<close>

text \<open>
  \<^verbatim>\<open>ElementSegment\<close> is a union of eight object types told apart by the literal type of
  \<^verbatim>\<open>flag\<close>; the constructor \<open>Element\<close>\<open>n\<close> is the object with \<^verbatim>\<open>flag: n\<close>.
\<close>

datatype ElementSegment =
    Element0 "Instruction list" "int list"
  | Element1 byte "Instruction list list"
  | Element2 int "Instruction list" byte "Instruction list list"
  | Element3 byte "Instruction list list"
  | Element4 "Instruction list" "int list"
  | Element5 byte "int list"
  | Element6 int "Instruction list" byte "int list"
  | Element7 byte "int list"

fun ElementSegment_flag :: "ElementSegment \<Rightarrow> byte" where
  "ElementSegment_flag (Element0 instructions funcidxs) = 0"
| "ElementSegment_flag (Element1 reftype elements) = 1"
| "ElementSegment_flag (Element2 tableidx instructions reftype elements) = 2"
| "ElementSegment_flag (Element3 reftype elements) = 3"
| "ElementSegment_flag (Element4 instructions funcidxs) = 4"
| "ElementSegment_flag (Element5 reftype funcidxs) = 5"
| "ElementSegment_flag (Element6 tableidx instructions reftype funcidxs) = 6"
| "ElementSegment_flag (Element7 reftype funcidxs) = 7"

definition expression_sizeOrThrow :: "Instruction list \<Rightarrow> nat option" where
  "expression_sizeOrThrow instructions = sum_sizes Instruction_sizeOrThrow instructions"

definition expression_writeOrThrow :: "Instruction list \<Rightarrow> cursor \<Rightarrow> error + cursor" where
  "expression_writeOrThrow instructions c = write_each Instruction_writeOrThrow instructions c"

fun ElementSegment_sizeOrThrow :: "ElementSegment \<Rightarrow> nat option" where
  "ElementSegment_sizeOrThrow (Element0 instructions funcidxs) =
     do { a \<leftarrow> expression_sizeOrThrow instructions;
          b \<leftarrow> counted_sizeOrThrow U32_sizeOrThrow funcidxs; Some (1 + a + b) }"
| "ElementSegment_sizeOrThrow (Element1 reftype elements) =
     do { a \<leftarrow> counted_sizeOrThrow expression_sizeOrThrow elements; Some (1 + 1 + a) }"
| "ElementSegment_sizeOrThrow (Element2 tableidx instructions reftype elements) =
     do { t \<leftarrow> U32_sizeOrThrow tableidx; a \<leftarrow> expression_sizeOrThrow instructions;
          b \<leftarrow> counted_sizeOrThrow expression_sizeOrThrow elements; Some (1 + t + a + 1 + b) }"
| "ElementSegment_sizeOrThrow (Element3 reftype elements) =
     do { a \<leftarrow> counted_sizeOrThrow expression_sizeOrThrow elements; Some (1 + 1 + a) }"
| "ElementSegment_sizeOrThrow (Element4 instructions funcidxs) =
     do { a \<leftarrow> expression_sizeOrThrow instructions;
          b \<leftarrow> counted_sizeOrThrow U32_sizeOrThrow funcidxs; Some (1 + a + b) }"
| "ElementSegment_sizeOrThrow (Element5 reftype funcidxs) =
     do { b \<leftarrow> counted_sizeOrThrow U32_sizeOrThrow funcidxs; Some (1 + 1 + b) }"
| "ElementSegment_sizeOrThrow (Element6 tableidx instructions reftype funcidxs) =
     do { t \<leftarrow> U32_sizeOrThrow tableidx; a \<leftarrow> expression_sizeOrThrow instructions;
          b \<leftarrow> counted_sizeOrThrow U32_sizeOrThrow funcidxs; Some (1 + t + a + 1 + b) }"
| "ElementSegment_sizeOrThrow (Element7 reftype funcidxs) =
     do { b \<leftarrow> counted_sizeOrThrow U32_sizeOrThrow funcidxs; Some (1 + 1 + b) }"

fun ElementSegment_writeOrThrow :: "ElementSegment \<Rightarrow> cursor \<Rightarrow> error + cursor" where
  "ElementSegment_writeOrThrow (Element0 instructions funcidxs) c =
     andThen (writeUint8OrThrow c 0) (\<lambda>c.
       andThen (expression_writeOrThrow instructions c)
         (counted_writeOrThrow U32_writeOrThrow funcidxs))"
| "ElementSegment_writeOrThrow (Element1 reftype elements) c =
     andThen (writeUint8OrThrow c 1) (\<lambda>c.
       andThen (writeUint8OrThrow c reftype)
         (counted_writeOrThrow expression_writeOrThrow elements))"
| "ElementSegment_writeOrThrow (Element2 tableidx instructions reftype elements) c =
     andThen (writeUint8OrThrow c 2) (\<lambda>c.
       andThen (U32_writeOrThrow tableidx c) (\<lambda>c.
         andThen (expression_writeOrThrow instructions c) (\<lambda>c.
           andThen (writeUint8OrThrow c reftype)
             (counted_writeOrThrow expression_writeOrThrow elements))))"
| "ElementSegment_writeOrThrow (Element3 reftype elements) c =
     andThen (writeUint8OrThrow c 3) (\<lambda>c.
       andThen (writeUint8OrThrow c reftype)
         (counted_writeOrThrow expression_writeOrThrow elements))"
| "ElementSegment_writeOrThrow (Element4 instructions funcidxs) c =
     andThen (writeUint8OrThrow c 4) (\<lambda>c.
       andThen (expression_writeOrThrow instructions c)
         (counted_writeOrThrow U32_writeOrThrow funcidxs))"
| "ElementSegment_writeOrThrow (Element5 reftype funcidxs) c =
     andThen (writeUint8OrThrow c 5) (\<lambda>c.
       andThen (writeUint8OrThrow c reftype)
         (counted_writeOrThrow U32_writeOrThrow funcidxs))"
| "ElementSegment_writeOrThrow (Element6 tableidx instructions reftype funcidxs) c =
     andThen (writeUint8OrThrow c 6) (\<lambda>c.
       andThen (U32_writeOrThrow tableidx c) (\<lambda>c.
         andThen (expression_writeOrThrow instructions c) (\<lambda>c.
           andThen (writeUint8OrThrow c reftype)
             (counted_writeOrThrow U32_writeOrThrow funcidxs))))"
| "ElementSegment_writeOrThrow (Element7 reftype funcidxs) c =
     andThen (writeUint8OrThrow c 7) (\<lambda>c.
       andThen (writeUint8OrThrow c reftype)
         (counted_writeOrThrow U32_writeOrThrow funcidxs))"

definition ElementSegment_readOrThrow :: "cursor \<Rightarrow> error + (ElementSegment \<times> cursor)" where
  "ElementSegment_readOrThrow c =
     andThen (readUint8OrThrow c) (\<lambda>(flag, c).
       if flag = 0
       then andThen (expression_readOrThrow c) (\<lambda>(instructions, c).
              andThen (counted_readOrThrow U32_readOrThrow c) (\<lambda>(funcidxs, c).
                Inr (Element0 instructions funcidxs, c)))
       else if flag = 1
       then andThen (readUint8OrThrow c) (\<lambda>(reftype, c).
              andThen (counted_readOrThrow expression_readOrThrow c) (\<lambda>(elements, c).
                Inr (Element1 reftype elements, c)))
       else if flag = 2
       then andThen (U32_readOrThrow c) (\<lambda>(tableidx, c).
              andThen (expression_readOrThrow c) (\<lambda>(instructions, c).
                andThen (readUint8OrThrow c) (\<lambda>(reftype, c).
                  andThen (counted_readOrThrow expression_readOrThrow c) (\<lambda>(elements, c).
                    Inr (Element2 tableidx instructions reftype elements, c)))))
       else if flag = 3
       then andThen (readUint8OrThrow c) (\<lambda>(reftype, c).
              andThen (counted_readOrThrow expression_readOrThrow c) (\<lambda>(elements, c).
                Inr (Element3 reftype elements, c)))
       else if flag = 4
       then andThen (expression_readOrThrow c) (\<lambda>(instructions, c).
              andThen (counted_readOrThrow U32_readOrThrow c) (\<lambda>(funcidxs, c).
                Inr (Element4 instructions funcidxs, c)))
       else if flag = 5
       then andThen (readUint8OrThrow c) (\<lambda>(reftype, c).
              andThen (counted_readOrThrow U32_readOrThrow c) (\<lambda>(funcidxs, c).
                Inr (Element5 reftype funcidxs, c)))
       else if flag = 6
       then andThen (U32_readOrThrow c) (\<lambda>(tableidx, c).
              andThen (expression_readOrThrow c) (\<lambda>(instructions, c).
                andThen (readUint8OrThrow c) (\<lambda>(reftype, c).
                  andThen (counted_readOrThrow U32_readOrThrow c) (\<lambda>(funcidxs, c).
                    Inr (Element6 tableidx instructions reftype funcidxs, c)))))
       else if flag = 7
       then andThen (readUint8OrThrow c) (\<lambda>(reftype, c).
              andThen (counted_readOrThrow U32_readOrThrow c) (\<lambda>(funcidxs, c).
                Inr (Element7 reftype funcidxs, c)))
       else Inl (UnknownElementSegmentFlag flag))"

subsection \<open>Code section\<close>

datatype Local = Local int byte

fun Local_sizeOrThrow :: "Local \<Rightarrow> nat option" where
  "Local_sizeOrThrow (Local count valtype) = do { a \<leftarrow> U32_sizeOrThrow count; Some (a + 1) }"

fun Local_writeOrThrow :: "Local \<Rightarrow> cursor \<Rightarrow> error + cursor" where
  "Local_writeOrThrow (Local count valtype) c =
     andThen (U32_writeOrThrow count c) (\<lambda>c. writeUint8OrThrow c valtype)"

definition Local_readOrThrow :: "cursor \<Rightarrow> error + (Local \<times> cursor)" where
  "Local_readOrThrow c =
     andThen (U32_readOrThrow c) (\<lambda>(count, c).
       andThen (readUint8OrThrow c) (\<lambda>(valtype, c). Inr (Local count valtype, c)))"

definition Locals_readOrThrow :: "cursor \<Rightarrow> error + (Local list \<times> cursor)" where
  "Locals_readOrThrow c = counted_readOrThrow Local_readOrThrow c"

datatype FunctionBody = FunctionBody "Local list" "Instruction list"

text \<open>
  \<^verbatim>\<open>subsize\<close> is computed by the same statements at the head of \<^verbatim>\<open>FunctionBody.sizeOrThrow\<close>
  and of \<^verbatim>\<open>FunctionBody.writeOrThrow\<close>. A write that computes a size does not return when
  the size does not: its result is an \<open>option\<close>.
\<close>

fun FunctionBody_subsize :: "FunctionBody \<Rightarrow> nat option" where
  "FunctionBody_subsize (FunctionBody locals instructions) =
     do { a \<leftarrow> counted_sizeOrThrow Local_sizeOrThrow locals;
          b \<leftarrow> sum_sizes Instruction_sizeOrThrow instructions;
          Some (a + b) }"

definition FunctionBody_sizeOrThrow :: "FunctionBody \<Rightarrow> nat option" where
  "FunctionBody_sizeOrThrow func =
     do { subsize \<leftarrow> FunctionBody_subsize func;
          n \<leftarrow> U32_sizeOrThrow (int subsize);
          Some (n + subsize) }"

fun FunctionBody_writeOrThrow :: "FunctionBody \<Rightarrow> cursor \<Rightarrow> (error + cursor) option" where
  "FunctionBody_writeOrThrow (FunctionBody locals instructions) c =
     do { subsize \<leftarrow> FunctionBody_subsize (FunctionBody locals instructions);
          Some (andThen (U32_writeOrThrow (int subsize) c) (\<lambda>c.
                  andThen (counted_writeOrThrow Local_writeOrThrow locals c)
                    (write_each Instruction_writeOrThrow instructions))) }"

definition FunctionBody_readOrThrow :: "cursor \<Rightarrow> error + (FunctionBody \<times> cursor)" where
  "FunctionBody_readOrThrow c =
     andThen (bytes_readOrThrow c) (\<lambda>(data, c).
       andThen (Locals_readOrThrow (Cursor data)) (\<lambda>(locals, subcursor).
         andThen (instructions_readOrThrow subcursor) (\<lambda>(instructions, subcursor).
           Inr (FunctionBody locals instructions, c))))"

subsection \<open>Data section\<close>

datatype DataSegment =
    Data0 "Instruction list" "byte list"
  | Data1 "byte list"
  | Data2 int "Instruction list" "byte list"

fun DataSegment_sizeOrThrow :: "DataSegment \<Rightarrow> nat option" where
  "DataSegment_sizeOrThrow (Data0 instructions data) =
     do { a \<leftarrow> expression_sizeOrThrow instructions; b \<leftarrow> bytes_sizeOrThrow data; Some (1 + a + b) }"
| "DataSegment_sizeOrThrow (Data1 data) = do { b \<leftarrow> bytes_sizeOrThrow data; Some (1 + b) }"
| "DataSegment_sizeOrThrow (Data2 memidx instructions data) =
     do { m \<leftarrow> U32_sizeOrThrow memidx; a \<leftarrow> expression_sizeOrThrow instructions;
          b \<leftarrow> bytes_sizeOrThrow data; Some (1 + m + a + b) }"

fun DataSegment_writeOrThrow :: "DataSegment \<Rightarrow> cursor \<Rightarrow> error + cursor" where
  "DataSegment_writeOrThrow (Data0 instructions data) c =
     andThen (writeUint8OrThrow c 0) (\<lambda>c.
       andThen (expression_writeOrThrow instructions c) (bytes_writeOrThrow data))"
| "DataSegment_writeOrThrow (Data1 data) c =
     andThen (writeUint8OrThrow c 1) (bytes_writeOrThrow data)"
| "DataSegment_writeOrThrow (Data2 memidx instructions data) c =
     andThen (writeUint8OrThrow c 2) (\<lambda>c.
       andThen (U32_writeOrThrow memidx c) (\<lambda>c.
         andThen (expression_writeOrThrow instructions c) (bytes_writeOrThrow data)))"

definition DataSegment_readOrThrow :: "cursor \<Rightarrow> error + (DataSegment \<times> cursor)" where
  "DataSegment_readOrThrow c =
     andThen (readUint8OrThrow c) (\<lambda>(flag, c).
       if flag = 0
       then andThen (expression_readOrThrow c) (\<lambda>(instructions, c).
              andThen (bytes_readOrThrow c) (\<lambda>(data, c). Inr (Data0 instructions data, c)))
       else if flag = 1
       then andThen (bytes_readOrThrow c) (\<lambda>(data, c). Inr (Data1 data, c))
       else if flag = 2
       then andThen (U32_readOrThrow c) (\<lambda>(memidx, c).
              andThen (expression_readOrThrow c) (\<lambda>(instructions, c).
                andThen (bytes_readOrThrow c) (\<lambda>(data, c).
                  Inr (Data2 memidx instructions data, c))))
       else Inl (UnknownDataSegmentFlag flag))"

subsection \<open>Tag section\<close>

definition tag_sizeOrThrow :: "byte \<times> int \<Rightarrow> nat option" where
  "tag_sizeOrThrow tag = (case tag of (attribute, typeidx) \<Rightarrow>
     do { a \<leftarrow> U32_sizeOrThrow typeidx; Some (1 + a) })"

definition tag_writeOrThrow :: "byte \<times> int \<Rightarrow> cursor \<Rightarrow> error + cursor" where
  "tag_writeOrThrow tag c = (case tag of (attribute, typeidx) \<Rightarrow>
     andThen (writeUint8OrThrow c attribute) (U32_writeOrThrow typeidx))"

definition tag_readOrThrow :: "cursor \<Rightarrow> error + ((byte \<times> int) \<times> cursor)" where
  "tag_readOrThrow c =
     andThen (readUint8OrThrow c) (\<lambda>(attribute, c).
       andThen (U32_readOrThrow c) (\<lambda>(typeidx, c). Inr ((attribute, typeidx), c)))"

section \<open>Sections as a sum, the body and the module\<close>

text \<open>
  A section of the source is an object of one of fifteen classes. The field of
  \<^verbatim>\<open>StartSection\<close> is \<^verbatim>\<open>funcidx\<close>, the one of \<^verbatim>\<open>DataCountSection\<close> is \<^verbatim>\<open>count\<close>; an
  \<^verbatim>\<open>UnknownSection\<close> keeps the \<^verbatim>\<open>kind\<close> it was read with and the payload.
\<close>

datatype Section =
    UnknownSection byte "byte list"
  | CustomSection "byte list" "byte list"
  | TypeSection "TypeDescriptor list"
  | ImportSection "ImportDescriptor list"
  | FunctionSection "int list"
  | TableSection "TableDescriptor list"
  | MemorySection "MemoryDescriptor list"
  | GlobalSection "GlobalDescriptor list"
  | ExportSection "ExportDescriptor list"
  | StartSection int
  | ElementSection "ElementSegment list"
  | CodeSection "FunctionBody list"
  | DataSection "DataSegment list"
  | DataCountSection int
  | TagSection "(byte \<times> int) list"

fun Section_kind :: "Section \<Rightarrow> byte" where
  "Section_kind (UnknownSection kind data) = kind"
| "Section_kind (CustomSection name data) = 0"
| "Section_kind (TypeSection descriptors) = 0x01"
| "Section_kind (ImportSection descriptors) = 0x02"
| "Section_kind (FunctionSection typeidxs) = 0x03"
| "Section_kind (TableSection descriptors) = 0x04"
| "Section_kind (MemorySection descriptors) = 0x05"
| "Section_kind (GlobalSection descriptors) = 0x06"
| "Section_kind (ExportSection descriptors) = 0x07"
| "Section_kind (StartSection funcidx) = 0x08"
| "Section_kind (ElementSection segments) = 0x09"
| "Section_kind (CodeSection bodies) = 0x0A"
| "Section_kind (DataSection segments) = 0x0b"
| "Section_kind (DataCountSection count) = 0x0c"
| "Section_kind (TagSection tags) = 0x0d"

fun Section_sizeOrThrow :: "Section \<Rightarrow> nat option" where
  "Section_sizeOrThrow (UnknownSection kind data) = Some (length data)"
| "Section_sizeOrThrow (CustomSection name data) =
     do { n \<leftarrow> U32_sizeOrThrow (int (length name)); Some (n + length name + length data) }"
| "Section_sizeOrThrow (TypeSection descriptors) =
     counted_sizeOrThrow TypeDescriptor_sizeOrThrow descriptors"
| "Section_sizeOrThrow (ImportSection descriptors) =
     counted_sizeOrThrow ImportDescriptor_sizeOrThrow descriptors"
| "Section_sizeOrThrow (FunctionSection typeidxs) = counted_sizeOrThrow U32_sizeOrThrow typeidxs"
| "Section_sizeOrThrow (TableSection descriptors) =
     counted_sizeOrThrow TableDescriptor_sizeOrThrow descriptors"
| "Section_sizeOrThrow (MemorySection descriptors) =
     counted_sizeOrThrow MemoryDescriptor_sizeOrThrow descriptors"
| "Section_sizeOrThrow (GlobalSection descriptors) =
     counted_sizeOrThrow GlobalDescriptor_sizeOrThrow descriptors"
| "Section_sizeOrThrow (ExportSection descriptors) =
     counted_sizeOrThrow ExportDescriptor_sizeOrThrow descriptors"
| "Section_sizeOrThrow (StartSection funcidx) = U32_sizeOrThrow funcidx"
| "Section_sizeOrThrow (ElementSection segments) =
     counted_sizeOrThrow ElementSegment_sizeOrThrow segments"
| "Section_sizeOrThrow (CodeSection bodies) = counted_sizeOrThrow FunctionBody_sizeOrThrow bodies"
| "Section_sizeOrThrow (DataSection segments) =
     counted_sizeOrThrow DataSegment_sizeOrThrow segments"
| "Section_sizeOrThrow (DataCountSection count) = U32_sizeOrThrow count"
| "Section_sizeOrThrow (TagSection tags) = counted_sizeOrThrow tag_sizeOrThrow tags"

text \<open>
  Writing that may not return: \<open>None\<close> is a write that does not return, \<open>Some (Inl e)\<close> one
  that throws, \<open>Some (Inr c)\<close> one that returns with the cursor at \<open>c\<close>.
\<close>

definition andThenP ::
  "(error + 'a) option \<Rightarrow> ('a \<Rightarrow> (error + 'b) option) \<Rightarrow> (error + 'b) option" where
  "andThenP m f = (case m of None \<Rightarrow> None | Some (Inl e) \<Rightarrow> Some (Inl e) | Some (Inr x) \<Rightarrow> f x)"

fun write_eachP ::
  "('a \<Rightarrow> cursor \<Rightarrow> (error + cursor) option) \<Rightarrow> 'a list \<Rightarrow> cursor \<Rightarrow> (error + cursor) option" where
  "write_eachP w [] c = Some (Inr c)"
| "write_eachP w (x # xs) c = andThenP (w x c) (write_eachP w xs)"

fun Section_writeOrThrow :: "Section \<Rightarrow> cursor \<Rightarrow> (error + cursor) option" where
  "Section_writeOrThrow (UnknownSection kind data) c = Some (writeOrThrow c data)"
| "Section_writeOrThrow (CustomSection name data) c =
     Some (andThen (bytes_writeOrThrow name c) (\<lambda>c. writeOrThrow c data))"
| "Section_writeOrThrow (TypeSection descriptors) c =
     Some (counted_writeOrThrow TypeDescriptor_writeOrThrow descriptors c)"
| "Section_writeOrThrow (ImportSection descriptors) c =
     Some (counted_writeOrThrow ImportDescriptor_writeOrThrow descriptors c)"
| "Section_writeOrThrow (FunctionSection typeidxs) c =
     Some (counted_writeOrThrow U32_writeOrThrow typeidxs c)"
| "Section_writeOrThrow (TableSection descriptors) c =
     Some (counted_writeOrThrow TableDescriptor_writeOrThrow descriptors c)"
| "Section_writeOrThrow (MemorySection descriptors) c =
     Some (counted_writeOrThrow MemoryDescriptor_writeOrThrow descriptors c)"
| "Section_writeOrThrow (GlobalSection descriptors) c =
     Some (counted_writeOrThrow GlobalDescriptor_writeOrThrow descriptors c)"
| "Section_writeOrThrow (ExportSection descriptors) c =
     Some (counted_writeOrThrow ExportDescriptor_writeOrThrow descriptors c)"
| "Section_writeOrThrow (StartSection funcidx) c = Some (U32_writeOrThrow funcidx c)"
| "Section_writeOrThrow (ElementSection segments) c =
     Some (counted_writeOrThrow ElementSegment_writeOrThrow segments c)"
| "Section_writeOrThrow (CodeSection bodies) c =
     andThenP (Some (U32_writeOrThrow (int (length bodies)) c))
       (write_eachP FunctionBody_writeOrThrow bodies)"
| "Section_writeOrThrow (DataSection segments) c =
     Some (counted_writeOrThrow DataSegment_writeOrThrow segments c)"
| "Section_writeOrThrow (DataCountSection count) c = Some (U32_writeOrThrow count c)"
| "Section_writeOrThrow (TagSection tags) c = Some (counted_writeOrThrow tag_writeOrThrow tags c)"

text \<open>The \<^verbatim>\<open>readOrThrow\<close> of each section class, on the cursor over the section's payload.\<close>

definition CustomSection_readOrThrow :: "cursor \<Rightarrow> error + (Section \<times> cursor)" where
  "CustomSection_readOrThrow c =
     andThen (bytes_readOrThrow c) (\<lambda>(name, c).
       andThen (readOrThrow c (remaining c)) (\<lambda>(data, c). Inr (CustomSection name data, c)))"

definition TypeSection_readOrThrow :: "cursor \<Rightarrow> error + (Section \<times> cursor)" where
  "TypeSection_readOrThrow c =
     andThen (counted_readOrThrow TypeDescriptor_readOrThrow c) (\<lambda>(types, c).
       Inr (TypeSection types, c))"

definition ImportSection_readOrThrow :: "cursor \<Rightarrow> error + (Section \<times> cursor)" where
  "ImportSection_readOrThrow c =
     andThen (counted_readOrThrow ImportDescriptor_readOrThrow c) (\<lambda>(descriptors, c).
       Inr (ImportSection descriptors, c))"

definition FunctionSection_readOrThrow :: "cursor \<Rightarrow> error + (Section \<times> cursor)" where
  "FunctionSection_readOrThrow c =
     andThen (counted_readOrThrow U32_readOrThrow c) (\<lambda>(typeidxs, c).
       Inr (FunctionSection typeidxs, c))"

definition TableSection_readOrThrow :: "cursor \<Rightarrow> error + (Section \<times> cursor)" where
  "TableSection_readOrThrow c =
     andThen (counted_readOrThrow TableDescriptor_readOrThrow c) (\<lambda>(descriptors, c).
       Inr (TableSection descriptors, c))"

definition MemorySection_readOrThrow :: "cursor \<Rightarrow> error + (Section \<times> cursor)" where
  "MemorySection_readOrThrow c =
     andThen (counted_readOrThrow MemoryDescriptor_readOrThrow c) (\<lambda>(descriptors, c).
       Inr (MemorySection descriptors, c))"

definition GlobalSection_readOrThrow :: "cursor \<Rightarrow> error + (Section \<times> cursor)" where
  "GlobalSection_readOrThrow c =
     andThen (counted_readOrThrow GlobalDescriptor_readOrThrow c) (\<lambda>(descriptors, c).
       Inr (GlobalSection descriptors, c))"

definition ExportSection_readOrThrow :: "cursor \<Rightarrow> error + (Section \<times> cursor)" where
  "ExportSection_readOrThrow c =
     andThen (counted_readOrThrow ExportDescriptor_readOrThrow c) (\<lambda>(exports, c).
       Inr (ExportSection exports, c))"

definition StartSection_readOrThrow :: "cursor \<Rightarrow> error + (Section \<times> cursor)" where
  "StartSection_readOrThrow c =
     andThen (U32_readOrThrow c) (\<lambda>(funcidx, c). Inr (StartSection funcidx, c))"

definition ElementSection_readOrThrow :: "cursor \<Rightarrow> error + (Section \<times> cursor)" where
  "ElementSection_readOrThrow c =
     andThen (counted_readOrThrow ElementSegment_readOrThrow c) (\<lambda>(segments, c).
       Inr (ElementSection segments, c))"

definition CodeSection_readOrThrow :: "cursor \<Rightarrow> error + (Section \<times> cursor)" where
  "CodeSection_readOrThrow c =
     andThen (counted_readOrThrow FunctionBody_readOrThrow c) (\<lambda>(bodies, c).
       Inr (CodeSection bodies, c))"

definition DataSection_readOrThrow :: "cursor \<Rightarrow> error + (Section \<times> cursor)" where
  "DataSection_readOrThrow c =
     andThen (counted_readOrThrow DataSegment_readOrThrow c) (\<lambda>(segments, c).
       Inr (DataSection segments, c))"

definition DataCountSection_readOrThrow :: "cursor \<Rightarrow> error + (Section \<times> cursor)" where
  "DataCountSection_readOrThrow c =
     andThen (U32_readOrThrow c) (\<lambda>(count, c). Inr (DataCountSection count, c))"

definition TagSection_readOrThrow :: "cursor \<Rightarrow> error + (Section \<times> cursor)" where
  "TagSection_readOrThrow c =
     andThen (counted_readOrThrow tag_readOrThrow c) (\<lambda>(tags, c). Inr (TagSection tags, c))"

text \<open>
  Modelled from the spec: \<^verbatim>\<open>Readable.readFromBytesOrThrow\<close> and \<^verbatim>\<open>Writable.writeToBytesOrThrow\<close>
  belong to the imported package \<^verbatim>\<open>@hazae41/binary\<close>, not to the sources. Section 4.5 of the
  specification asks that a section decoder consumes exactly its payload, under- or
  over-consumption being a failure, and section 3 that no bytes trail the last section: the
  reader runs on a fresh cursor over the bytes and fails when bytes are left. The writer
  (the \<^verbatim>\<open>README\<close> calls it on a module) runs on a fresh buffer of \<^verbatim>\<open>sizeOrThrow()\<close> bytes and
  returns the buffer.
\<close>

definition readFromBytesOrThrow :: "(cursor \<Rightarrow> error + ('a \<times> cursor)) \<Rightarrow> byte list \<Rightarrow> error + 'a" where
  "readFromBytesOrThrow readable bytes =
     andThen (readable (Cursor bytes)) (\<lambda>(x, c).
       if remaining c > 0 then Inl ReadUnderflowError else Inr x)"

definition writeToBytesOrThrow ::
  "nat option \<Rightarrow> (cursor \<Rightarrow> (error + cursor) option) \<Rightarrow> (error + byte list) option" where
  "writeToBytesOrThrow writable_size writable_write =
     do { n \<leftarrow> writable_size;
          andThenP (writable_write (Cursor (replicate n 0))) (\<lambda>c.
            if remaining c > 0 then Some (Inl WriteUnderflowError) else Some (Inr (before c))) }"

text \<open>
  \<^verbatim>\<open>Body.readOrThrow\<close>. \<open>Section_readFromBytesOrThrow\<close> is the chain of \<^verbatim>\<open>if (kind === ...)\<close>
  in the loop; \<open>Body_sections_readOrThrow\<close> is the loop \<^verbatim>\<open>while (cursor.remaining > 0)\<close>.
\<close>

definition Section_readFromBytesOrThrow :: "byte \<Rightarrow> byte list \<Rightarrow> error + Section" where
  "Section_readFromBytesOrThrow kind data =
     (if kind = 0 then readFromBytesOrThrow CustomSection_readOrThrow data
      else if kind = 0x01 then readFromBytesOrThrow TypeSection_readOrThrow data
      else if kind = 0x02 then readFromBytesOrThrow ImportSection_readOrThrow data
      else if kind = 0x03 then readFromBytesOrThrow FunctionSection_readOrThrow data
      else if kind = 0x04 then readFromBytesOrThrow TableSection_readOrThrow data
      else if kind = 0x05 then readFromBytesOrThrow MemorySection_readOrThrow data
      else if kind = 0x06 then readFromBytesOrThrow GlobalSection_readOrThrow data
      else if kind = 0x07 then readFromBytesOrThrow ExportSection_readOrThrow data
      else if kind = 0x08 then readFromBytesOrThrow StartSection_readOrThrow data
      else if kind = 0x09 then readFromBytesOrThrow ElementSection_readOrThrow data
      else if kind = 0x0A then readFromBytesOrThrow CodeSection_readOrThrow data
      else if kind = 0x0b then readFromBytesOrThrow DataSection_readOrThrow data
      else if kind = 0x0c then readFromBytesOrThrow DataCountSection_readOrThrow data
      else if kind = 0x0d then readFromBytesOrThrow TagSection_readOrThrow data
      else Inr (UnknownSection kind data))"

definition frame_readOrThrow :: "cursor \<Rightarrow> error + (Section \<times> cursor)" where
  "frame_readOrThrow c =
     andThen (readUint8OrThrow c) (\<lambda>(kind, c).
       andThen (bytes_readOrThrow c) (\<lambda>(data, c).
         andThen (Section_readFromBytesOrThrow kind data) (\<lambda>section. Inr (section, c))))"

lemma nonincreasing_bytes: "nonincreasing bytes_readOrThrow"
  unfolding bytes_readOrThrow_def by (intro nonincreasing_intros)

lemma frame_read_shrinks:
  "frame_readOrThrow c = Inr (section, c') \<Longrightarrow> length (after c') < length (after c)"
proof -
  have "decreasing (\<lambda>c. andThen (readUint8OrThrow c) (\<lambda>(kind, c).
       andThen (bytes_readOrThrow c) (\<lambda>(data, c). Inr ((kind, data), c))))"
    by (intro decreasing_andThen decreasing_readUint8OrThrow nonincreasing_intros nonincreasing_bytes)
  moreover assume "frame_readOrThrow c = Inr (section, c')"
  then obtain kind data where
    "andThen (readUint8OrThrow c) (\<lambda>(kind, c).
       andThen (bytes_readOrThrow c) (\<lambda>(data, c). Inr ((kind, data), c))) = Inr ((kind, data), c')"
    by (auto simp: frame_readOrThrow_def andThen_Inr_iff)
  ultimately show ?thesis unfolding decreasing_def by blast
qed

function Body_sections_readOrThrow :: "cursor \<Rightarrow> error + (Section list \<times> cursor)" where
  "Body_sections_readOrThrow c =
     (if remaining c > 0
      then andThen (frame_readOrThrow c) (\<lambda>(section, c').
             andThen (Body_sections_readOrThrow c') (\<lambda>(sections, c'').
               Inr (section # sections, c'')))
      else Inr ([], c))"
  by pat_completeness auto
termination
  by (relation "measure (\<lambda>c. length (after c))") (auto dest: frame_read_shrinks)

declare Body_sections_readOrThrow.simps [simp del]

datatype Body = Body (sections: "Section list")

definition Body_readOrThrow :: "cursor \<Rightarrow> error + (Body \<times> cursor)" where
  "Body_readOrThrow c =
     andThen (Body_sections_readOrThrow c) (\<lambda>(sections, c). Inr (Body sections, c))"

definition frame_sizeOrThrow :: "Section \<Rightarrow> nat option" where
  "frame_sizeOrThrow section =
     do { n \<leftarrow> Section_sizeOrThrow section;
          p \<leftarrow> U32_sizeOrThrow (int n);
          m \<leftarrow> Section_sizeOrThrow section;
          Some (1 + p + m) }"

definition Body_sizeOrThrow :: "Body \<Rightarrow> nat option" where
  "Body_sizeOrThrow body = sum_sizes frame_sizeOrThrow (sections body)"

definition frame_writeOrThrow :: "Section \<Rightarrow> cursor \<Rightarrow> (error + cursor) option" where
  "frame_writeOrThrow section c =
     andThenP (Some (writeUint8OrThrow c (Section_kind section))) (\<lambda>c.
       do { n \<leftarrow> Section_sizeOrThrow section;
            andThenP (Some (U32_writeOrThrow (int n) c)) (Section_writeOrThrow section) })"

definition Body_writeOrThrow :: "Body \<Rightarrow> cursor \<Rightarrow> (error + cursor) option" where
  "Body_writeOrThrow body c = write_eachP frame_writeOrThrow (sections body) c"

datatype Head = Head (version: int)

definition Head_sizeOrThrow :: "Head \<Rightarrow> nat" where
  "Head_sizeOrThrow head = 4 + 4"

definition Head_writeOrThrow :: "Head \<Rightarrow> cursor \<Rightarrow> error + cursor" where
  "Head_writeOrThrow head c =
     andThen (writeUint32OrThrow c 1836278016) (\<lambda>c. writeUint32OrThrow c (version head))"

definition Head_readOrThrow :: "cursor \<Rightarrow> error + (Head \<times> cursor)" where
  "Head_readOrThrow c =
     andThen (readUint32OrThrow c) (\<lambda>(magic, c).
       if magic \<noteq> 1836278016 then Inl InvalidMagicNumber
       else andThen (readUint32OrThrow c) (\<lambda>(version, c).
              if version \<noteq> 1 then Inl UnsupportedVersion else Inr (Head version, c)))"

datatype Module = Module (head: Head) (body: Body)

definition Module_sizeOrThrow :: "Module \<Rightarrow> nat option" where
  "Module_sizeOrThrow module = do { b \<leftarrow> Body_sizeOrThrow (body module);
                                      Some (Head_sizeOrThrow (head module) + b) }"

definition Module_writeOrThrow :: "Module \<Rightarrow> cursor \<Rightarrow> (error + cursor) option" where
  "Module_writeOrThrow module c =
     andThenP (Some (Head_writeOrThrow (head module) c)) (Body_writeOrThrow (body module))"

definition Module_readOrThrow :: "cursor \<Rightarrow> error + (Module \<times> cursor)" where
  "Module_readOrThrow c =
     andThen (Head_readOrThrow c) (\<lambda>(head, c).
       andThen (Body_readOrThrow c) (\<lambda>(body, c). Inr (Module head body, c)))"

section \<open>Constant expressions\<close>












section \<open>The bytes of a value and the range of its fields\<close>

text \<open>
  For every class, \<open>_bytes\<close> is the byte sequence its \<^verbatim>\<open>writeOrThrow\<close> is shown below to
  write, and \<open>_ok\<close> says that the unsigned integer fields of a value lie in their declared
  range: \<open>0\<close> to \<open>2 ^ 32 - 1\<close> for every index, count written as such, minimum and maximum
  (each a \<^verbatim>\<open>LEB128.U32\<close> on the wire) and \<open>0\<close> to \<open>2 ^ 64 - 1\<close> for a \<^verbatim>\<open>LEB128.U64\<close>. The signed
  immediates are not constrained.
\<close>

definition u32_ok :: "int \<Rightarrow> bool" where
  "u32_ok v \<longleftrightarrow> 0 \<le> v \<and> v < 2 ^ 32"

definition any_ok :: "'a \<Rightarrow> bool" where
  "any_ok v \<longleftrightarrow> True"

fun Writable_bytes :: "Writable \<Rightarrow> byte list" where
  "Writable_bytes (U8 v) = [v]"
| "Writable_bytes (U32 v) = uleb v"
| "Writable_bytes (I32 v) = sleb v"
| "Writable_bytes (I33 v) = sleb v"
| "Writable_bytes (U64 v) = uleb v"
| "Writable_bytes (I64 v) = sleb v"
| "Writable_bytes (F32 v) = f32_bytes v"
| "Writable_bytes (F64 v) = f64_bytes v"

fun Writable_ok :: "Writable \<Rightarrow> bool" where
  "Writable_ok (U32 v) = u32_ok v"
| "Writable_ok (U64 v) = (0 \<le> v \<and> v < 2 ^ 64)"
| "Writable_ok w = True"

definition Instruction_bytes :: "Instruction \<Rightarrow> byte list" where
  "Instruction_bytes i = opcode i # concat (map Writable_bytes (params i))"

definition Instruction_ok :: "Instruction \<Rightarrow> bool" where
  "Instruction_ok i = list_all Writable_ok (params i)"

definition expression_bytes :: "Instruction list \<Rightarrow> byte list" where
  "expression_bytes instructions = concat (map Instruction_bytes instructions)"

definition expression_ok :: "Instruction list \<Rightarrow> bool" where
  "expression_ok instructions = list_all Instruction_ok instructions"

definition sized_bytes :: "byte list \<Rightarrow> byte list" where
  "sized_bytes x = uleb (int (length x)) @ x"

definition counted_bytes :: "('a \<Rightarrow> byte list) \<Rightarrow> 'a list \<Rightarrow> byte list" where
  "counted_bytes enc xs = uleb (int (length xs)) @ concat (map enc xs)"

definition max_bytes :: "int option \<Rightarrow> byte list" where
  "max_bytes m = (case m of None \<Rightarrow> [] | Some v \<Rightarrow> uleb v)"

definition max_ok :: "int option \<Rightarrow> bool" where
  "max_ok m = (case m of None \<Rightarrow> True | Some v \<Rightarrow> u32_ok v)"

definition u8_bytes :: "byte \<Rightarrow> byte list" where
  "u8_bytes b = [b]"

definition field_bytes :: "byte \<times> bool \<Rightarrow> byte list" where
  "field_bytes field = (case field of (valtype, mutable) \<Rightarrow> [valtype, bool_byte mutable])"

fun TypeBody_bytes :: "TypeBody \<Rightarrow> byte list" where
  "TypeBody_bytes (FuncType parameters results) =
     counted_bytes u8_bytes parameters @ counted_bytes u8_bytes results"
| "TypeBody_bytes (StructType members) = counted_bytes field_bytes members"
| "TypeBody_bytes (ArrayType valtype mutable) = [valtype, bool_byte mutable]"

fun TypeDescriptor_bytes :: "TypeDescriptor \<Rightarrow> byte list" where
  "TypeDescriptor_bytes (TypeDescriptor prefix subtypes tbody) =
     (if prefix = 0x60 then prefix # TypeBody_bytes tbody
      else prefix # (if prefix = 0x4E \<or> prefix = 0x4D then counted_bytes uleb subtypes else [])
             @ TypeBody_kind tbody # TypeBody_bytes tbody)"

fun TypeDescriptor_ok :: "TypeDescriptor \<Rightarrow> bool" where
  "TypeDescriptor_ok (TypeDescriptor prefix subtypes tbody) = list_all u32_ok subtypes"

fun ImportBody_bytes :: "ImportBody \<Rightarrow> byte list" where
  "ImportBody_bytes (FunctionImport typeidx) = uleb typeidx"
| "ImportBody_bytes (TableImport reftype flag minimum maximum) =
     reftype # flag # uleb minimum @ max_bytes maximum"
| "ImportBody_bytes (MemoryImport flag minimum maximum) = flag # uleb minimum @ max_bytes maximum"
| "ImportBody_bytes (GlobalImport valtype mutable) = [valtype, mutable]"

fun ImportBody_ok :: "ImportBody \<Rightarrow> bool" where
  "ImportBody_ok (FunctionImport typeidx) = u32_ok typeidx"
| "ImportBody_ok (TableImport reftype flag minimum maximum) = (u32_ok minimum \<and> max_ok maximum)"
| "ImportBody_ok (MemoryImport flag minimum maximum) = (u32_ok minimum \<and> max_ok maximum)"
| "ImportBody_ok (GlobalImport valtype mutable) = True"

fun ImportDescriptor_bytes :: "ImportDescriptor \<Rightarrow> byte list" where
  "ImportDescriptor_bytes (ImportDescriptor from_module name ibody) =
     sized_bytes from_module @ sized_bytes name @ ImportBody_kind ibody # ImportBody_bytes ibody"

fun ImportDescriptor_ok :: "ImportDescriptor \<Rightarrow> bool" where
  "ImportDescriptor_ok (ImportDescriptor from_module name ibody) = ImportBody_ok ibody"

fun TableDescriptor_bytes :: "TableDescriptor \<Rightarrow> byte list" where
  "TableDescriptor_bytes (TableDescriptor reftype flag minimum maximum) =
     reftype # flag # uleb minimum @ max_bytes maximum"

fun TableDescriptor_ok :: "TableDescriptor \<Rightarrow> bool" where
  "TableDescriptor_ok (TableDescriptor reftype flag minimum maximum) =
     (u32_ok minimum \<and> max_ok maximum)"

fun MemoryDescriptor_bytes :: "MemoryDescriptor \<Rightarrow> byte list" where
  "MemoryDescriptor_bytes (MemoryDescriptor flag minimum maximum) =
     flag # uleb minimum @ max_bytes maximum"

fun MemoryDescriptor_ok :: "MemoryDescriptor \<Rightarrow> bool" where
  "MemoryDescriptor_ok (MemoryDescriptor flag minimum maximum) = (u32_ok minimum \<and> max_ok maximum)"

fun GlobalDescriptor_bytes :: "GlobalDescriptor \<Rightarrow> byte list" where
  "GlobalDescriptor_bytes (GlobalDescriptor valtype mutable instructions) =
     valtype # mutable # expression_bytes instructions"

fun GlobalDescriptor_ok :: "GlobalDescriptor \<Rightarrow> bool" where
  "GlobalDescriptor_ok (GlobalDescriptor valtype mutable instructions) = expression_ok instructions"

fun ExportDescriptor_bytes :: "ExportDescriptor \<Rightarrow> byte list" where
  "ExportDescriptor_bytes (ExportDescriptor name kind xidx) = sized_bytes name @ kind # uleb xidx"

fun ExportDescriptor_ok :: "ExportDescriptor \<Rightarrow> bool" where
  "ExportDescriptor_ok (ExportDescriptor name kind xidx) = u32_ok xidx"

fun ElementSegment_bytes :: "ElementSegment \<Rightarrow> byte list" where
  "ElementSegment_bytes (Element0 instructions funcidxs) =
     0 # expression_bytes instructions @ counted_bytes uleb funcidxs"
| "ElementSegment_bytes (Element1 reftype elements) =
     1 # reftype # counted_bytes expression_bytes elements"
| "ElementSegment_bytes (Element2 tableidx instructions reftype elements) =
     2 # uleb tableidx @ expression_bytes instructions
       @ reftype # counted_bytes expression_bytes elements"
| "ElementSegment_bytes (Element3 reftype elements) =
     3 # reftype # counted_bytes expression_bytes elements"
| "ElementSegment_bytes (Element4 instructions funcidxs) =
     4 # expression_bytes instructions @ counted_bytes uleb funcidxs"
| "ElementSegment_bytes (Element5 reftype funcidxs) = 5 # reftype # counted_bytes uleb funcidxs"
| "ElementSegment_bytes (Element6 tableidx instructions reftype funcidxs) =
     6 # uleb tableidx @ expression_bytes instructions @ reftype # counted_bytes uleb funcidxs"
| "ElementSegment_bytes (Element7 reftype funcidxs) = 7 # reftype # counted_bytes uleb funcidxs"

fun ElementSegment_ok :: "ElementSegment \<Rightarrow> bool" where
  "ElementSegment_ok (Element0 instructions funcidxs) =
     (expression_ok instructions \<and> list_all u32_ok funcidxs)"
| "ElementSegment_ok (Element1 reftype elements) = list_all expression_ok elements"
| "ElementSegment_ok (Element2 tableidx instructions reftype elements) =
     (u32_ok tableidx \<and> expression_ok instructions \<and> list_all expression_ok elements)"
| "ElementSegment_ok (Element3 reftype elements) = list_all expression_ok elements"
| "ElementSegment_ok (Element4 instructions funcidxs) =
     (expression_ok instructions \<and> list_all u32_ok funcidxs)"
| "ElementSegment_ok (Element5 reftype funcidxs) = list_all u32_ok funcidxs"
| "ElementSegment_ok (Element6 tableidx instructions reftype funcidxs) =
     (u32_ok tableidx \<and> expression_ok instructions \<and> list_all u32_ok funcidxs)"
| "ElementSegment_ok (Element7 reftype funcidxs) = list_all u32_ok funcidxs"

fun Local_bytes :: "Local \<Rightarrow> byte list" where
  "Local_bytes (Local count valtype) = uleb count @ [valtype]"

fun Local_ok :: "Local \<Rightarrow> bool" where
  "Local_ok (Local count valtype) = u32_ok count"

fun FunctionBody_payload :: "FunctionBody \<Rightarrow> byte list" where
  "FunctionBody_payload (FunctionBody locals instructions) =
     counted_bytes Local_bytes locals @ expression_bytes instructions"

definition FunctionBody_bytes :: "FunctionBody \<Rightarrow> byte list" where
  "FunctionBody_bytes func = sized_bytes (FunctionBody_payload func)"

fun FunctionBody_ok :: "FunctionBody \<Rightarrow> bool" where
  "FunctionBody_ok (FunctionBody locals instructions) =
     (list_all Local_ok locals \<and> expression_ok instructions)"

fun DataSegment_bytes :: "DataSegment \<Rightarrow> byte list" where
  "DataSegment_bytes (Data0 instructions data) = 0 # expression_bytes instructions @ sized_bytes data"
| "DataSegment_bytes (Data1 data) = 1 # sized_bytes data"
| "DataSegment_bytes (Data2 memidx instructions data) =
     2 # uleb memidx @ expression_bytes instructions @ sized_bytes data"

fun DataSegment_ok :: "DataSegment \<Rightarrow> bool" where
  "DataSegment_ok (Data0 instructions data) = expression_ok instructions"
| "DataSegment_ok (Data1 data) = True"
| "DataSegment_ok (Data2 memidx instructions data) = (u32_ok memidx \<and> expression_ok instructions)"

definition tag_bytes :: "byte \<times> int \<Rightarrow> byte list" where
  "tag_bytes tag = (case tag of (attribute, typeidx) \<Rightarrow> attribute # uleb typeidx)"

definition tag_ok :: "byte \<times> int \<Rightarrow> bool" where
  "tag_ok tag = (case tag of (attribute, typeidx) \<Rightarrow> u32_ok typeidx)"

fun Section_bytes :: "Section \<Rightarrow> byte list" where
  "Section_bytes (UnknownSection kind data) = data"
| "Section_bytes (CustomSection name data) = sized_bytes name @ data"
| "Section_bytes (TypeSection descriptors) = counted_bytes TypeDescriptor_bytes descriptors"
| "Section_bytes (ImportSection descriptors) = counted_bytes ImportDescriptor_bytes descriptors"
| "Section_bytes (FunctionSection typeidxs) = counted_bytes uleb typeidxs"
| "Section_bytes (TableSection descriptors) = counted_bytes TableDescriptor_bytes descriptors"
| "Section_bytes (MemorySection descriptors) = counted_bytes MemoryDescriptor_bytes descriptors"
| "Section_bytes (GlobalSection descriptors) = counted_bytes GlobalDescriptor_bytes descriptors"
| "Section_bytes (ExportSection descriptors) = counted_bytes ExportDescriptor_bytes descriptors"
| "Section_bytes (StartSection funcidx) = uleb funcidx"
| "Section_bytes (ElementSection segments) = counted_bytes ElementSegment_bytes segments"
| "Section_bytes (CodeSection bodies) = counted_bytes FunctionBody_bytes bodies"
| "Section_bytes (DataSection segments) = counted_bytes DataSegment_bytes segments"
| "Section_bytes (DataCountSection count) = uleb count"
| "Section_bytes (TagSection tags) = counted_bytes tag_bytes tags"

fun Section_ok :: "Section \<Rightarrow> bool" where
  "Section_ok (UnknownSection kind data) = True"
| "Section_ok (CustomSection name data) = True"
| "Section_ok (TypeSection descriptors) = list_all TypeDescriptor_ok descriptors"
| "Section_ok (ImportSection descriptors) = list_all ImportDescriptor_ok descriptors"
| "Section_ok (FunctionSection typeidxs) = list_all u32_ok typeidxs"
| "Section_ok (TableSection descriptors) = list_all TableDescriptor_ok descriptors"
| "Section_ok (MemorySection descriptors) = list_all MemoryDescriptor_ok descriptors"
| "Section_ok (GlobalSection descriptors) = list_all GlobalDescriptor_ok descriptors"
| "Section_ok (ExportSection descriptors) = list_all ExportDescriptor_ok descriptors"
| "Section_ok (StartSection funcidx) = u32_ok funcidx"
| "Section_ok (ElementSection segments) = list_all ElementSegment_ok segments"
| "Section_ok (CodeSection bodies) = list_all FunctionBody_ok bodies"
| "Section_ok (DataSection segments) = list_all DataSegment_ok segments"
| "Section_ok (DataCountSection count) = u32_ok count"
| "Section_ok (TagSection tags) = list_all tag_ok tags"

definition frame_bytes :: "Section \<Rightarrow> byte list" where
  "frame_bytes s = Section_kind s # sized_bytes (Section_bytes s)"

definition Body_bytes :: "Body \<Rightarrow> byte list" where
  "Body_bytes b = concat (map frame_bytes (sections b))"

definition Body_ok :: "Body \<Rightarrow> bool" where
  "Body_ok b = list_all Section_ok (sections b)"

definition Head_bytes :: "Head \<Rightarrow> byte list" where
  "Head_bytes h = le32 1836278016 @ le32 (version h)"

definition Module_bytes :: "Module \<Rightarrow> byte list" where
  "Module_bytes m = Head_bytes (head m) @ Body_bytes (body m)"

definition Module_ok :: "Module \<Rightarrow> bool" where
  "Module_ok m = Body_ok (body m)"

section \<open>Writers and sizes against the reference encoding\<close>

text \<open>
  \<open>encodes w f ok enc\<close>: on every value that is \<open>ok\<close>, the writer \<open>w\<close> is the cursor's write of
  the bytes \<open>enc v\<close> and the size \<open>f\<close> returns their number.
\<close>

definition encodes ::
  "('a \<Rightarrow> cursor \<Rightarrow> error + cursor) \<Rightarrow> ('a \<Rightarrow> nat option) \<Rightarrow> ('a \<Rightarrow> bool) \<Rightarrow> ('a \<Rightarrow> byte list) \<Rightarrow> bool" where
  "encodes w f ok enc \<longleftrightarrow>
     (\<forall>v. ok v \<longrightarrow> w v = (\<lambda>c. writeOrThrow c (enc v)) \<and> f v = Some (length (enc v)))"

lemma encodesI:
  "(\<And>v c. ok v \<Longrightarrow> w v c = writeOrThrow c (enc v)) \<Longrightarrow>
   (\<And>v. ok v \<Longrightarrow> f v = Some (length (enc v))) \<Longrightarrow> encodes w f ok enc"
  unfolding encodes_def by (intro allI impI conjI ext) simp_all

lemma encodes_write: "encodes w f ok enc \<Longrightarrow> ok v \<Longrightarrow> w v = (\<lambda>c. writeOrThrow c (enc v))"
  by (simp add: encodes_def)

lemma encodes_size: "encodes w f ok enc \<Longrightarrow> ok v \<Longrightarrow> f v = Some (length (enc v))"
  by (simp add: encodes_def)

lemma writeOrThrow_Nil [simp]: "writeOrThrow c [] = Inr c"
  by (simp add: writeOrThrow_def)

lemma writeOrThrow_append [simp]:
  "andThen (writeOrThrow c xs) (\<lambda>c. writeOrThrow c ys) = writeOrThrow c (xs @ ys)"
  by (auto simp: writeOrThrow_def andThen_def remaining_def add.commute)

lemma writeOrThrow_append_eta [simp]:
  "andThen (writeOrThrow c xs) (\<lambda>c. andThen (writeOrThrow c ys) k) =
   andThen (writeOrThrow c (xs @ ys)) k"
  by (auto simp: writeOrThrow_def andThen_def remaining_def add.commute)

lemma encodes_each:
  assumes "encodes w f ok enc"
  shows "encodes (write_each w) (sum_sizes f) (list_all ok) (\<lambda>xs. concat (map enc xs))"
proof (rule encodesI)
  fix xs :: "'a list" and c
  assume "list_all ok xs"
  then have "write_each w xs = (\<lambda>c. writeOrThrow c (concat (map enc xs)))"
    by (induction xs) (auto simp: encodes_write[OF assms] intro!: ext)
  then show "write_each w xs c = writeOrThrow c (concat (map enc xs))" by simp
next
  fix xs :: "'a list"
  assume "list_all ok xs"
  then show "sum_sizes f xs = Some (length (concat (map enc xs)))"
    by (induction xs) (simp_all add: encodes_size[OF assms])
qed

lemma U32_encodes: "encodes U32_writeOrThrow U32_sizeOrThrow u32_ok uleb"
  by (rule encodesI)
     (simp_all add: u32_ok_def U32_writeOrThrow_def U32_sizeOrThrow_def
        unsigned_write_loop_uleb unsigned_size_loop_uleb)

lemma nat_encodes:
  "0 \<le> v \<Longrightarrow> U32_writeOrThrow v = (\<lambda>c. writeOrThrow c (uleb v))"
  "0 \<le> v \<Longrightarrow> U32_sizeOrThrow v = Some (length (uleb v))"
  by (intro ext)
     (simp_all add: U32_writeOrThrow_def U32_sizeOrThrow_def
        unsigned_write_loop_uleb unsigned_size_loop_uleb)

lemma encodes_counted:
  assumes "encodes w f ok enc"
  shows "encodes (counted_writeOrThrow w) (counted_sizeOrThrow f) (list_all ok) (counted_bytes enc)"
  by (rule encodesI)
     (simp_all add: counted_writeOrThrow_def counted_sizeOrThrow_def counted_bytes_def nat_encodes
        encodes_write[OF encodes_each[OF assms]] encodes_size[OF encodes_each[OF assms]])

lemma bytes_encodes: "encodes bytes_writeOrThrow bytes_sizeOrThrow any_ok sized_bytes"
  by (rule encodesI)
     (simp_all add: bytes_writeOrThrow_def bytes_sizeOrThrow_def sized_bytes_def nat_encodes)

lemma max_encodes: "encodes max_writeOrThrow max_sizeOrThrow max_ok max_bytes"
  by (rule encodesI)
     (auto simp: max_writeOrThrow_def max_sizeOrThrow_def max_ok_def max_bytes_def
        encodes_write[OF U32_encodes] encodes_size[OF U32_encodes] split: option.splits)

lemma Writable_encodes:
  "encodes Writable_writeOrThrow Writable_sizeOrThrow Writable_ok Writable_bytes"
proof (rule encodesI)
  fix v c
  assume "Writable_ok v"
  then show "Writable_writeOrThrow v c = writeOrThrow c (Writable_bytes v)"
    by (cases v)
       (simp_all add: writeUint8_single encodes_write[OF U32_encodes] U64_writeOrThrow_def
          unsigned_write_loop_uleb I32_writeOrThrow_def I33_writeOrThrow_def I64_writeOrThrow_def
          signed_write_loop_sleb writeFloat32OrThrow_def writeFloat64OrThrow_def)
next
  fix v
  assume "Writable_ok v"
  then show "Writable_sizeOrThrow v = Some (length (Writable_bytes v))"
    by (cases v)
       (auto simp: encodes_size[OF U32_encodes] U64_sizeOrThrow_def
          unsigned_size_loop_uleb I32_sizeOrThrow_def I33_sizeOrThrow_def I64_sizeOrThrow_def
          signed_size_loop_sleb f32_bytes_def f64_bytes_def split: prod.splits)
qed

lemma Instruction_encodes:
  "encodes Instruction_writeOrThrow Instruction_sizeOrThrow Instruction_ok Instruction_bytes"
  by (rule encodesI)
     (simp_all add: Instruction_writeOrThrow_def Instruction_sizeOrThrow_def Instruction_ok_def
        Instruction_bytes_def writeUint8_single
        encodes_write[OF encodes_each[OF Writable_encodes]]
        encodes_size[OF encodes_each[OF Writable_encodes]])

lemma expression_encodes:
  "encodes expression_writeOrThrow expression_sizeOrThrow expression_ok expression_bytes"
  using encodes_each[OF Instruction_encodes]
  by (simp add: encodes_def expression_writeOrThrow_def[abs_def] expression_sizeOrThrow_def[abs_def]
      expression_ok_def[abs_def] expression_bytes_def[abs_def])

lemma u8_encodes: "encodes u8_writeOrThrow (\<lambda>b. Some 1) any_ok u8_bytes"
  by (rule encodesI) (simp_all add: u8_writeOrThrow_def u8_bytes_def writeUint8_single)

lemma field_encodes: "encodes field_writeOrThrow (\<lambda>field. Some (1 + 1)) any_ok field_bytes"
  by (rule encodesI)
     (auto simp: field_writeOrThrow_def field_bytes_def writeUint8_single split: prod.splits)

lemma field_encodes_Suc:
  "encodes field_writeOrThrow (\<lambda>field. Some (Suc (Suc 0))) any_ok field_bytes"
  using field_encodes by simp

lemma all_any_ok [simp]: "list_all any_ok xs"
  by (simp add: any_ok_def list_all_iff)

lemmas encodes_simps =
  writeUint8_single
  encodes_write[OF U32_encodes] encodes_size[OF U32_encodes]
  encodes_write[OF max_encodes] encodes_size[OF max_encodes]
  encodes_write[OF bytes_encodes] encodes_size[OF bytes_encodes]
  encodes_write[OF expression_encodes] encodes_size[OF expression_encodes]
  encodes_write[OF encodes_each[OF Instruction_encodes]]
  encodes_size[OF encodes_each[OF Instruction_encodes]]
  encodes_write[OF encodes_counted[OF U32_encodes]]
  encodes_size[OF encodes_counted[OF U32_encodes]]
  encodes_write[OF encodes_counted[OF expression_encodes]]
  encodes_size[OF encodes_counted[OF expression_encodes]]
  encodes_write[OF encodes_counted[OF u8_encodes]]
  encodes_write[OF encodes_counted[OF field_encodes]]
  encodes_size[OF encodes_counted[OF field_encodes_Suc]]
  any_ok_def

lemma length_counted_u8: "length (counted_bytes u8_bytes xs) = length (uleb (int (length xs))) + length xs"
  by (simp add: counted_bytes_def u8_bytes_def length_concat comp_def sum_list_triv)

lemma TypeBody_encodes:
  "encodes TypeBody_writeOrThrow TypeBody_sizeOrThrow any_ok TypeBody_bytes"
proof (rule encodesI)
  fix v c
  show "TypeBody_writeOrThrow v c = writeOrThrow c (TypeBody_bytes v)"
    by (cases v) (simp_all add: encodes_simps)
next
  fix v
  show "TypeBody_sizeOrThrow v = Some (length (TypeBody_bytes v))"
    by (cases v) (simp_all add: encodes_simps nat_encodes length_counted_u8)
qed

lemma TypeDescriptor_encodes:
  "encodes TypeDescriptor_writeOrThrow TypeDescriptor_sizeOrThrow TypeDescriptor_ok
     TypeDescriptor_bytes"
proof (rule encodesI)
  fix v c
  assume "TypeDescriptor_ok v"
  then show "TypeDescriptor_writeOrThrow v c = writeOrThrow c (TypeDescriptor_bytes v)"
    by (cases v) (simp add: encodes_simps encodes_write[OF TypeBody_encodes])
next
  fix v
  assume "TypeDescriptor_ok v"
  then show "TypeDescriptor_sizeOrThrow v = Some (length (TypeDescriptor_bytes v))"
    by (cases v) (simp add: encodes_simps encodes_size[OF TypeBody_encodes])
qed

lemma ImportBody_encodes:
  "encodes ImportBody_writeOrThrow ImportBody_sizeOrThrow ImportBody_ok ImportBody_bytes"
proof (rule encodesI)
  fix v c
  assume "ImportBody_ok v"
  then show "ImportBody_writeOrThrow v c = writeOrThrow c (ImportBody_bytes v)"
    by (cases v) (simp_all add: encodes_simps)
next
  fix v
  assume "ImportBody_ok v"
  then show "ImportBody_sizeOrThrow v = Some (length (ImportBody_bytes v))"
    by (cases v) (simp_all add: encodes_simps)
qed

lemma ImportDescriptor_encodes:
  "encodes ImportDescriptor_writeOrThrow ImportDescriptor_sizeOrThrow ImportDescriptor_ok
     ImportDescriptor_bytes"
proof (rule encodesI)
  fix v c
  assume "ImportDescriptor_ok v"
  then show "ImportDescriptor_writeOrThrow v c = writeOrThrow c (ImportDescriptor_bytes v)"
    by (cases v) (simp add: encodes_simps encodes_write[OF ImportBody_encodes])
next
  fix v
  assume "ImportDescriptor_ok v"
  then show "ImportDescriptor_sizeOrThrow v = Some (length (ImportDescriptor_bytes v))"
    by (cases v) (simp add: encodes_simps encodes_size[OF ImportBody_encodes])
qed

lemma TableDescriptor_encodes:
  "encodes TableDescriptor_writeOrThrow TableDescriptor_sizeOrThrow TableDescriptor_ok
     TableDescriptor_bytes"
proof (rule encodesI)
  fix v c
  assume "TableDescriptor_ok v"
  then show "TableDescriptor_writeOrThrow v c = writeOrThrow c (TableDescriptor_bytes v)"
    by (cases v) (simp add: encodes_simps)
next
  fix v
  assume "TableDescriptor_ok v"
  then show "TableDescriptor_sizeOrThrow v = Some (length (TableDescriptor_bytes v))"
    by (cases v) (simp add: encodes_simps)
qed

lemma MemoryDescriptor_encodes:
  "encodes MemoryDescriptor_writeOrThrow MemoryDescriptor_sizeOrThrow MemoryDescriptor_ok
     MemoryDescriptor_bytes"
proof (rule encodesI)
  fix v c
  assume "MemoryDescriptor_ok v"
  then show "MemoryDescriptor_writeOrThrow v c = writeOrThrow c (MemoryDescriptor_bytes v)"
    by (cases v) (simp add: encodes_simps)
next
  fix v
  assume "MemoryDescriptor_ok v"
  then show "MemoryDescriptor_sizeOrThrow v = Some (length (MemoryDescriptor_bytes v))"
    by (cases v) (simp add: encodes_simps)
qed

lemma GlobalDescriptor_encodes:
  "encodes GlobalDescriptor_writeOrThrow GlobalDescriptor_sizeOrThrow GlobalDescriptor_ok
     GlobalDescriptor_bytes"
proof (rule encodesI)
  fix v c
  assume "GlobalDescriptor_ok v"
  then show "GlobalDescriptor_writeOrThrow v c = writeOrThrow c (GlobalDescriptor_bytes v)"
    by (cases v) (simp add: encodes_simps expression_ok_def expression_bytes_def)
next
  fix v
  assume "GlobalDescriptor_ok v"
  then show "GlobalDescriptor_sizeOrThrow v = Some (length (GlobalDescriptor_bytes v))"
    by (cases v) (simp add: encodes_simps expression_ok_def expression_bytes_def)
qed

lemma ExportDescriptor_encodes:
  "encodes ExportDescriptor_writeOrThrow ExportDescriptor_sizeOrThrow ExportDescriptor_ok
     ExportDescriptor_bytes"
proof (rule encodesI)
  fix v c
  assume "ExportDescriptor_ok v"
  then show "ExportDescriptor_writeOrThrow v c = writeOrThrow c (ExportDescriptor_bytes v)"
    by (cases v) (simp add: encodes_simps)
next
  fix v
  assume "ExportDescriptor_ok v"
  then show "ExportDescriptor_sizeOrThrow v = Some (length (ExportDescriptor_bytes v))"
    by (cases v) (simp add: encodes_simps)
qed

lemma ElementSegment_encodes:
  "encodes ElementSegment_writeOrThrow ElementSegment_sizeOrThrow ElementSegment_ok
     ElementSegment_bytes"
proof (rule encodesI)
  fix v c
  assume "ElementSegment_ok v"
  then show "ElementSegment_writeOrThrow v c = writeOrThrow c (ElementSegment_bytes v)"
    by (cases v) (simp_all add: encodes_simps)
next
  fix v
  assume "ElementSegment_ok v"
  then show "ElementSegment_sizeOrThrow v = Some (length (ElementSegment_bytes v))"
    by (cases v) (simp_all add: encodes_simps)
qed

lemma Local_encodes: "encodes Local_writeOrThrow Local_sizeOrThrow Local_ok Local_bytes"
proof (rule encodesI)
  fix v c
  assume "Local_ok v"
  then show "Local_writeOrThrow v c = writeOrThrow c (Local_bytes v)"
    by (cases v) (simp add: encodes_simps)
next
  fix v
  assume "Local_ok v"
  then show "Local_sizeOrThrow v = Some (length (Local_bytes v))"
    by (cases v) (simp add: encodes_simps)
qed

lemma DataSegment_encodes:
  "encodes DataSegment_writeOrThrow DataSegment_sizeOrThrow DataSegment_ok DataSegment_bytes"
proof (rule encodesI)
  fix v c
  assume "DataSegment_ok v"
  then show "DataSegment_writeOrThrow v c = writeOrThrow c (DataSegment_bytes v)"
    by (cases v) (simp_all add: encodes_simps)
next
  fix v
  assume "DataSegment_ok v"
  then show "DataSegment_sizeOrThrow v = Some (length (DataSegment_bytes v))"
    by (cases v) (simp_all add: encodes_simps)
qed

lemma tag_encodes: "encodes tag_writeOrThrow tag_sizeOrThrow tag_ok tag_bytes"
  by (rule encodesI)
     (auto simp: tag_writeOrThrow_def tag_sizeOrThrow_def tag_ok_def tag_bytes_def encodes_simps
        split: prod.splits)

text \<open>The same for the writers that compute a size on the way.\<close>

definition encodesP ::
  "('a \<Rightarrow> cursor \<Rightarrow> (error + cursor) option) \<Rightarrow> ('a \<Rightarrow> nat option) \<Rightarrow> ('a \<Rightarrow> bool) \<Rightarrow>
   ('a \<Rightarrow> byte list) \<Rightarrow> bool" where
  "encodesP w f ok enc \<longleftrightarrow>
     (\<forall>v. ok v \<longrightarrow> w v = (\<lambda>c. Some (writeOrThrow c (enc v))) \<and> f v = Some (length (enc v)))"

lemma encodesPI:
  "(\<And>v c. ok v \<Longrightarrow> w v c = Some (writeOrThrow c (enc v))) \<Longrightarrow>
   (\<And>v. ok v \<Longrightarrow> f v = Some (length (enc v))) \<Longrightarrow> encodesP w f ok enc"
  unfolding encodesP_def by (intro allI impI conjI ext) simp_all

lemma encodesP_write: "encodesP w f ok enc \<Longrightarrow> ok v \<Longrightarrow> w v = (\<lambda>c. Some (writeOrThrow c (enc v)))"
  by (simp add: encodesP_def)

lemma encodesP_size: "encodesP w f ok enc \<Longrightarrow> ok v \<Longrightarrow> f v = Some (length (enc v))"
  by (simp add: encodesP_def)

lemma andThenP_write [simp]:
  "andThenP (Some (writeOrThrow c xs)) (\<lambda>c. Some (writeOrThrow c ys)) =
   Some (writeOrThrow c (xs @ ys))"
  by (auto simp: andThenP_def writeOrThrow_def remaining_def add.commute)

lemma encodesP_each:
  assumes "encodesP w f ok enc"
  shows "encodesP (write_eachP w) (sum_sizes f) (list_all ok) (\<lambda>xs. concat (map enc xs))"
proof (rule encodesPI)
  fix xs :: "'a list" and c
  assume "list_all ok xs"
  then have "write_eachP w xs = (\<lambda>c. Some (writeOrThrow c (concat (map enc xs))))"
    by (induction xs) (auto simp: encodesP_write[OF assms])
  then show "write_eachP w xs c = Some (writeOrThrow c (concat (map enc xs)))" by simp
next
  fix xs :: "'a list"
  assume "list_all ok xs"
  then show "sum_sizes f xs = Some (length (concat (map enc xs)))"
    by (induction xs) (simp_all add: encodesP_size[OF assms])
qed

lemma FunctionBody_subsize_payload:
  "FunctionBody_ok func \<Longrightarrow> FunctionBody_subsize func = Some (length (FunctionBody_payload func))"
  by (cases func)
     (simp add: encodes_simps encodes_size[OF encodes_counted[OF Local_encodes]]
        expression_ok_def expression_bytes_def)

lemma FunctionBody_encodes:
  "encodesP FunctionBody_writeOrThrow FunctionBody_sizeOrThrow FunctionBody_ok FunctionBody_bytes"
proof (rule encodesPI)
  fix v c
  assume ok: "FunctionBody_ok v"
  obtain locals instructions where v: "v = FunctionBody locals instructions" by (cases v)
  have "FunctionBody_writeOrThrow v c =
      Some (andThen (U32_writeOrThrow (int (length (FunctionBody_payload v))) c) (\<lambda>c.
              andThen (counted_writeOrThrow Local_writeOrThrow locals c)
                (write_each Instruction_writeOrThrow instructions)))"
    using FunctionBody_subsize_payload[OF ok] by (simp add: v)
  also have "\<dots> = Some (writeOrThrow c (FunctionBody_bytes v))"
    using ok
    by (simp add: v nat_encodes encodes_simps encodes_write[OF encodes_counted[OF Local_encodes]]
        expression_ok_def expression_bytes_def FunctionBody_bytes_def sized_bytes_def)
  finally show "FunctionBody_writeOrThrow v c = Some (writeOrThrow c (FunctionBody_bytes v))" .
next
  fix v
  assume ok: "FunctionBody_ok v"
  show "FunctionBody_sizeOrThrow v = Some (length (FunctionBody_bytes v))"
    by (simp add: FunctionBody_sizeOrThrow_def FunctionBody_subsize_payload[OF ok] nat_encodes
        FunctionBody_bytes_def sized_bytes_def)
qed

lemma CodeSection_size:
  "list_all FunctionBody_ok bodies \<Longrightarrow>
   counted_sizeOrThrow FunctionBody_sizeOrThrow bodies =
     Some (length (counted_bytes FunctionBody_bytes bodies))"
  by (simp add: counted_sizeOrThrow_def counted_bytes_def nat_encodes
      encodesP_size[OF encodesP_each[OF FunctionBody_encodes]])

lemma Section_encodes:
  "encodesP Section_writeOrThrow Section_sizeOrThrow Section_ok Section_bytes"
proof (rule encodesPI)
  fix v c
  assume "Section_ok v"
  then show "Section_writeOrThrow v c = Some (writeOrThrow c (Section_bytes v))"
    by (cases v)
       (simp_all add: encodes_simps
          encodes_write[OF encodes_counted[OF TypeDescriptor_encodes]]
          encodes_write[OF encodes_counted[OF ImportDescriptor_encodes]]
          encodes_write[OF encodes_counted[OF TableDescriptor_encodes]]
          encodes_write[OF encodes_counted[OF MemoryDescriptor_encodes]]
          encodes_write[OF encodes_counted[OF GlobalDescriptor_encodes]]
          encodes_write[OF encodes_counted[OF ExportDescriptor_encodes]]
          encodes_write[OF encodes_counted[OF ElementSegment_encodes]]
          encodes_write[OF encodes_counted[OF DataSegment_encodes]]
          encodes_write[OF encodes_counted[OF tag_encodes]]
          encodesP_write[OF encodesP_each[OF FunctionBody_encodes]]
          nat_encodes counted_bytes_def)
next
  fix v
  assume "Section_ok v"
  then show "Section_sizeOrThrow v = Some (length (Section_bytes v))"
    by (cases v)
       (simp_all add: encodes_simps
          encodes_size[OF encodes_counted[OF TypeDescriptor_encodes]]
          encodes_size[OF encodes_counted[OF ImportDescriptor_encodes]]
          encodes_size[OF encodes_counted[OF TableDescriptor_encodes]]
          encodes_size[OF encodes_counted[OF MemoryDescriptor_encodes]]
          encodes_size[OF encodes_counted[OF GlobalDescriptor_encodes]]
          encodes_size[OF encodes_counted[OF ExportDescriptor_encodes]]
          encodes_size[OF encodes_counted[OF ElementSegment_encodes]]
          encodes_size[OF encodes_counted[OF DataSegment_encodes]]
          encodes_size[OF encodes_counted[OF tag_encodes]]
          CodeSection_size nat_encodes sized_bytes_def)
qed

lemma frame_encodes: "encodesP frame_writeOrThrow frame_sizeOrThrow Section_ok frame_bytes"
  by (rule encodesPI)
     (simp_all add: frame_writeOrThrow_def frame_sizeOrThrow_def frame_bytes_def sized_bytes_def
        encodesP_write[OF Section_encodes] encodesP_size[OF Section_encodes] nat_encodes
        writeUint8_single)

lemma Body_encodes: "encodesP Body_writeOrThrow Body_sizeOrThrow Body_ok Body_bytes"
  by (rule encodesPI)
     (simp_all add: Body_writeOrThrow_def Body_sizeOrThrow_def Body_ok_def Body_bytes_def
        encodesP_write[OF encodesP_each[OF frame_encodes]]
        encodesP_size[OF encodesP_each[OF frame_encodes]])

lemma Head_encodes:
  "Head_writeOrThrow h c = writeOrThrow c (Head_bytes h)"
  "Head_sizeOrThrow h = length (Head_bytes h)"
  by (simp_all add: Head_writeOrThrow_def Head_sizeOrThrow_def Head_bytes_def
      writeUint32OrThrow_def le32_def)

lemma Module_encodes: "encodesP Module_writeOrThrow Module_sizeOrThrow Module_ok Module_bytes"
  by (rule encodesPI)
     (simp_all add: Module_writeOrThrow_def Module_sizeOrThrow_def Module_ok_def Module_bytes_def
        encodesP_write[OF Body_encodes] encodesP_size[OF Body_encodes] Head_encodes)

lemma writeToBytesOrThrow_bytes:
  "writeToBytesOrThrow (Some (length bs)) (\<lambda>c. Some (writeOrThrow c bs)) = Some (Inr bs)"
  by (simp add: writeToBytesOrThrow_def andThenP_def writeOrThrow_def Cursor_def remaining_def)

section \<open>Reading back what was written\<close>

text \<open>
  \<open>reads r bs v\<close>: the reader \<open>r\<close>, on a cursor at the bytes \<open>bs\<close>, returns \<open>v\<close> and leaves the
  cursor behind them, whatever precedes and follows. \<open>decodes r ok enc\<close>: whatever \<open>r\<close> returns
  is \<open>ok\<close>, is read back from its own encoding \<open>enc v\<close>, and that encoding is not longer than
  the bytes \<open>r\<close> consumed.
\<close>

definition reads :: "(cursor \<Rightarrow> error + ('a \<times> cursor)) \<Rightarrow> byte list \<Rightarrow> 'a \<Rightarrow> bool" where
  "reads r bs v \<longleftrightarrow>
     (\<forall>p rest. r \<lparr>before = p, after = bs @ rest\<rparr> = Inr (v, \<lparr>before = p @ bs, after = rest\<rparr>))"

definition decodes ::
  "(cursor \<Rightarrow> error + ('a \<times> cursor)) \<Rightarrow> ('a \<Rightarrow> bool) \<Rightarrow> ('a \<Rightarrow> byte list) \<Rightarrow> bool" where
  "decodes r ok enc \<longleftrightarrow>
     (\<forall>c v c'. r c = Inr (v, c') \<longrightarrow>
        ok v \<and> reads r (enc v) v \<and> length (enc v) + length (after c') \<le> length (after c))"

lemma decodesD:
  "decodes r ok enc \<Longrightarrow> r c = Inr (v, c') \<Longrightarrow>
   ok v \<and> reads r (enc v) v \<and> length (enc v) + length (after c') \<le> length (after c)"
  unfolding decodes_def by blast

lemma decodesI:
  "(\<And>c v c'. r c = Inr (v, c') \<Longrightarrow>
      ok v \<and> reads r (enc v) v \<and> length (enc v) + length (after c') \<le> length (after c)) \<Longrightarrow>
   decodes r ok enc"
  unfolding decodes_def by blast

lemma leb_value_append:
  "leb_value (bs @ [b]) = leb_value bs + 2 ^ (7 * length bs) * uint (b AND 0x7F)"
  by (induction bs) (simp_all add: algebra_simps power_add)

lemma low7_bit6: "(b::byte) AND 0x40 \<noteq> 0 \<longleftrightarrow> 64 \<le> uint (b AND 0x7F)"
proof -
  have "b AND 0x40 = (if bit b 6 then 64 else 0)"
    by (rule bit_word_eqI) (auto simp: bit_simps)
  then have "b AND 0x40 \<noteq> 0 \<longleftrightarrow> bit b 6" by simp
  also have "\<dots> \<longleftrightarrow> bit (uint (b AND 0x7F)) 6"
    by (simp add: bit_simps)
  also have "\<dots> \<longleftrightarrow> 64 \<le> uint (b AND 0x7F)"
  proof -
    have aux: "odd (d div 64) \<longleftrightarrow> 64 \<le> d" if "0 \<le> d" "d < 128" for d :: int
      using that by presburger
    show ?thesis
      unfolding bit_iff_odd using aux[OF low7_bounds[of b]] by simp
  qed
  finally show ?thesis .
qed

lemma sign_extend_range:
  assumes "bs \<noteq> []"
  shows "- (2 ^ (7 * length bs - 1)) \<le> sign_extend bs \<and> sign_extend bs < 2 ^ (7 * length bs - 1)"
proof -
  obtain xs b where bs: "bs = xs @ [b]" using assms by (cases bs rule: rev_cases) auto
  define n where "n = length xs"
  define x where "x = leb_value xs"
  define d where "d = uint (b AND 0x7F)"
  define P :: int where "P = 2 ^ (7 * n)"
  have P: "0 < P" by (simp add: P_def)
  have x: "0 \<le> x" "x < P" using leb_value_bounds[of xs] by (simp_all add: x_def P_def n_def)
  have d: "0 \<le> d" "d < 128" using low7_bounds[of b] by (simp_all add: d_def)
  have lv: "leb_value bs = x + P * d"
    by (simp add: bs leb_value_append x_def P_def d_def n_def)
  have lb: "last bs = b" by (simp add: bs)
  have pw: "(2::int) ^ (7 * length bs - 1) = 64 * P" "(2::int) ^ (7 * length bs) = 128 * P"
    by (simp_all add: bs P_def n_def power_add)
  have se: "sign_extend bs = (if b AND 0x40 \<noteq> 0 then x + P * d - 128 * P else x + P * d)"
    unfolding sign_extend_def lv lb pw by simp
  show ?thesis
  proof (cases "b AND 0x40 \<noteq> 0")
    case True
    then have "64 \<le> d" by (simp add: low7_bit6 d_def)
    then have "64 * P \<le> P * d" using P by simp
    moreover have "P * d \<le> P * 127" using d P by (intro mult_left_mono) simp_all
    ultimately have "- (64 * P) \<le> x + P * d - 128 * P \<and> x + P * d - 128 * P < 64 * P"
      using x by linarith
    then show ?thesis unfolding se pw if_P[OF True] .
  next
    case False
    then have "d < 64" by (simp add: low7_bit6 d_def)
    then have "d \<le> 63" by simp
    then have "P * d \<le> P * 63" using P by (intro mult_left_mono) simp_all
    moreover have "0 \<le> P * d" using d P by simp
    ultimately have "- (64 * P) \<le> x + P * d \<and> x + P * d < 64 * P"
      using x by linarith
    then show ?thesis unfolding se pw if_not_P[OF False] .
  qed
qed

lemma sign_extend_sleb: "sign_extend (sleb v) = v"
proof -
  define k where "k = length (sleb v)"
  have k: "1 \<le> k" using sleb_props[of v] by (cases "sleb v") (simp_all add: k_def)
  have r: "- (2 ^ (7 * k - 1)) \<le> v" "v < 2 ^ (7 * k - 1)" using sleb_range[of v] by (simp_all add: k_def)
  have pw: "(2::int) ^ (7 * k) = 2 * 2 ^ (7 * k - 1)"
    using k by (cases k) (simp_all add: power_add)
  have val: "leb_value (sleb v) = v mod 2 ^ (7 * k)" by (simp add: sleb_value k_def)
  show ?thesis
  proof (cases "v < 0")
    case True
    have "v mod 2 ^ (7 * k) = v + 2 ^ (7 * k)"
    proof -
      have "(v + 2 ^ (7 * k)) mod 2 ^ (7 * k) = v + 2 ^ (7 * k)"
        using r True by (intro mod_pos_pos_trivial) (simp_all add: pw)
      then show ?thesis by simp
    qed
    then show ?thesis using True by (simp add: sign_extend_def sleb_sign val k_def)
  next
    case False
    have "v mod 2 ^ (7 * k) = v"
      using r False by (intro mod_pos_pos_trivial) (simp_all add: pw)
    then show ?thesis using False by (simp add: sign_extend_def sleb_sign val k_def)
  qed
qed

lemma sleb_leb_ok: "- (2 ^ 69) \<le> v \<Longrightarrow> v < 2 ^ 69 \<Longrightarrow> leb_ok 0 (sleb v)"
  using sleb_props[of v] sleb_length[of 10 v] by (simp add: leb_ok_def)

lemma leb_ok_length: "leb_ok 0 bs \<Longrightarrow> 1 \<le> length bs \<and> length bs \<le> 10"
  by (cases bs) (simp_all add: leb_ok_def)

lemma pow_le_69: "k \<le> 10 \<Longrightarrow> (2::int) ^ (7 * k - 1) \<le> 2 ^ 69"
  by (rule power_increasing) simp_all

text \<open>What a signed reader returns, before and after the conversion to a number.\<close>

lemma signed_value_range:
  assumes ok: "leb_ok 0 bs" and le: "sign_extend bs \<le> B" and B: "B < 2 ^ 53" "0 \<le> B"
    and v: "v = Number (sign_extend bs) \<or> v = sign_extend bs"
  shows "- (2 ^ (7 * length bs - 1)) \<le> v \<and> v < 2 ^ (7 * length bs - 1) \<and> v \<le> B \<and>
         (v = Number (sign_extend bs) \<longrightarrow> Number v = v)"
proof -
  define x where "x = sign_extend bs"
  define k where "k = length bs"
  have k: "1 \<le> k" "k \<le> 10" using leb_ok_length[OF ok] by (simp_all add: k_def)
  have bs: "bs \<noteq> []" using ok by (simp add: leb_ok_def)
  have r: "- (2 ^ (7 * k - 1)) \<le> x" "x < 2 ^ (7 * k - 1)"
    using sign_extend_range[OF bs] by (simp_all add: x_def k_def)
  show ?thesis
  proof (cases "v = x")
    case True
    have "Number v = v" if "v = Number x" using that Number_idem[of x] by simp
    then show ?thesis using True r le by (simp add: x_def k_def)
  next
    case False
    then have vn: "v = Number x" using v by (simp add: x_def)
    have idem: "Number v = v" using vn Number_idem[of x] by simp
    show ?thesis
    proof (cases "0 \<le> x")
      case True
      then have "\<bar>x\<bar> < 2 ^ 53" using le B by (simp add: x_def)
      then have "Number x = x" by (rule Number_exact)
      then show ?thesis using False vn by simp
    next
      case neg: False
      then have "\<bar>x\<bar> \<le> 2 ^ (7 * k - 1)" using r by simp
      then have a: "\<bar>v\<bar> \<le> 2 ^ (7 * k - 1)" unfolding vn by (rule Number_abs_le)
      have "sgn v = sgn x" unfolding vn by (rule Number_sgn)
      then have "v < 0" using neg by (simp add: sgn_if split: if_splits)
      then show ?thesis using a idem B by (simp add: k_def x_def Number_idem)
    qed
  qed
qed

lemma U32_read_Inr:
  assumes "U32_readOrThrow c = Inr (v, c')"
  obtains bs where "leb_ok 0 bs" "after c = bs @ after c'" "v = leb_value bs" "v \<le> 2 ^ 32 - 1"
proof -
  from assms obtain v0 s byte where l: "leb_read_loop c 0 0 = Inr (v0, s, byte, c')"
    and le: "v0 \<le> 2 ^ 32 - 1" and v: "v = Number v0"
    by (auto simp: U32_readOrThrow_def andThen_Inr_iff split: if_splits)
  from l obtain bs where bs: "leb_ok 0 bs" "after c = bs @ after c'" "v0 = leb_value bs"
    by (rule leb_read_loop_start_Inr)
  have "0 \<le> v0" using leb_value_bounds[of bs] bs by simp
  then have "Number v0 = v0" using le by (intro Number_exact) simp
  then show ?thesis using that[OF bs(1,2)] bs(3) le v by simp
qed

lemma signed_read_Inr:
  assumes "leb_read_loop c 0 0 = Inr (v0, s, byte, c')"
  obtains bs where "leb_ok 0 bs" "after c = bs @ after c'"
    "(if byte AND 0x40 \<noteq> 0 then v0 OR push_bit s (- 1) else v0) = sign_extend bs"
proof -
  from assms obtain bs where bs: "leb_ok 0 bs" "after c = bs @ after c'" "v0 = leb_value bs"
    "s = 7 * length bs" "byte = last bs"
    by (rule leb_read_loop_start_Inr)
  have "(if byte AND 0x40 \<noteq> 0 then v0 OR push_bit s (- 1) else v0) = sign_extend bs"
    unfolding bs(3,4,5) by (rule sign_extend_or)
  then show ?thesis by (rule that[OF bs(1,2)])
qed

lemma U32_decodes: "decodes U32_readOrThrow u32_ok uleb"
proof (rule decodesI)
  fix c v c'
  assume "U32_readOrThrow c = Inr (v, c')"
  then obtain bs where bs: "leb_ok 0 bs" "after c = bs @ after c'" "v = leb_value bs"
    "v \<le> 2 ^ 32 - 1"
    by (rule U32_read_Inr)
  have v: "0 \<le> v" "v < 2 ^ (7 * length bs)" using leb_value_bounds[of bs] bs(3) by simp_all
  have "length (uleb v) \<le> length bs"
    using v leb_ok_length[OF bs(1)] by (intro uleb_length) simp_all
  moreover have "reads U32_readOrThrow (uleb v) v"
    unfolding reads_def using U32_read_uleb[OF v(1) bs(4)] by simp
  ultimately show "u32_ok v \<and> reads U32_readOrThrow (uleb v) v \<and>
      length (uleb v) + length (after c') \<le> length (after c)"
    using v(1) bs(2,4) by (simp add: u32_ok_def)
qed

lemma signed_decodes_aux:
  assumes ok: "leb_ok 0 bs" and le: "sign_extend bs \<le> B" and B: "B < 2 ^ 53" "0 \<le> B"
    and v: "v = Number (sign_extend bs) \<or> v = sign_extend bs"
  shows "leb_ok 0 (sleb v) \<and> sign_extend (sleb v) = v \<and> v \<le> B \<and> length (sleb v) \<le> length bs \<and>
         (v = Number (sign_extend bs) \<longrightarrow> Number v = v)"
proof -
  have k: "1 \<le> length bs" "length bs \<le> 10" using leb_ok_length[OF ok] by simp_all
  have r: "- (2 ^ (7 * length bs - 1)) \<le> v" "v < 2 ^ (7 * length bs - 1)" "v \<le> B"
    "v = Number (sign_extend bs) \<longrightarrow> Number v = v"
    using signed_value_range[OF ok le B v] by simp_all
  have p: "(2::int) ^ (7 * length bs - 1) \<le> 2 ^ 69" using k by (intro pow_le_69)
  have "leb_ok 0 (sleb v)" using r(1,2) p by (intro sleb_leb_ok) simp_all
  moreover have "length (sleb v) \<le> length bs" using r(1,2) k by (intro sleb_length) simp_all
  ultimately show ?thesis using r sign_extend_sleb[of v] by simp
qed

lemma I32_decodes: "decodes I32_readOrThrow any_ok sleb"
proof (rule decodesI)
  fix c v c'
  assume "I32_readOrThrow c = Inr (v, c')"
  then obtain v0 s byte where l: "leb_read_loop c 0 0 = Inr (v0, s, byte, c')"
    and le: "(if byte AND 0x40 \<noteq> 0 then v0 OR push_bit s (- 1) else v0) \<le> 2 ^ 31 - 1"
    and v: "v = Number (if byte AND 0x40 \<noteq> 0 then v0 OR push_bit s (- 1) else v0)"
    by (auto simp: I32_readOrThrow_def andThen_Inr_iff Let_def split: if_splits)
  from l obtain bs where bs: "leb_ok 0 bs" "after c = bs @ after c'"
    "(if byte AND 0x40 \<noteq> 0 then v0 OR push_bit s (- 1) else v0) = sign_extend bs"
    by (rule signed_read_Inr)
  have a: "leb_ok 0 (sleb v)" "sign_extend (sleb v) = v" "v \<le> 2 ^ 31 - 1"
    "length (sleb v) \<le> length bs" "Number v = v"
    using signed_decodes_aux[OF bs(1), of "2 ^ 31 - 1" v] le v bs(3) by simp_all
  have "reads I32_readOrThrow (sleb v) v"
    unfolding reads_def using I32_read_reads[OF a(1)] a(2,3,5) by simp
  then show "any_ok v \<and> reads I32_readOrThrow (sleb v) v \<and>
      length (sleb v) + length (after c') \<le> length (after c)"
    using a(4) bs(2) by (simp add: any_ok_def)
qed

lemma I33_decodes: "decodes I33_readOrThrow any_ok sleb"
proof (rule decodesI)
  fix c v c'
  assume "I33_readOrThrow c = Inr (v, c')"
  then obtain v0 s byte where l: "leb_read_loop c 0 0 = Inr (v0, s, byte, c')"
    and le: "(if byte AND 0x40 \<noteq> 0 then v0 OR push_bit s (- 1) else v0) \<le> 2 ^ 32 - 1"
    and v: "v = Number (if byte AND 0x40 \<noteq> 0 then v0 OR push_bit s (- 1) else v0)"
    by (auto simp: I33_readOrThrow_def andThen_Inr_iff Let_def split: if_splits)
  from l obtain bs where bs: "leb_ok 0 bs" "after c = bs @ after c'"
    "(if byte AND 0x40 \<noteq> 0 then v0 OR push_bit s (- 1) else v0) = sign_extend bs"
    by (rule signed_read_Inr)
  have a: "leb_ok 0 (sleb v)" "sign_extend (sleb v) = v" "v \<le> 2 ^ 32 - 1"
    "length (sleb v) \<le> length bs" "Number v = v"
    using signed_decodes_aux[OF bs(1), of "2 ^ 32 - 1" v] le v bs(3) by simp_all
  have "reads I33_readOrThrow (sleb v) v"
    unfolding reads_def using I33_read_reads[OF a(1)] a(2,3,5) by simp
  then show "any_ok v \<and> reads I33_readOrThrow (sleb v) v \<and>
      length (sleb v) + length (after c') \<le> length (after c)"
    using a(4) bs(2) by (simp add: any_ok_def)
qed

lemma I64_decodes: "decodes I64_readOrThrow any_ok sleb"
proof (rule decodesI)
  fix c v c'
  assume "I64_readOrThrow c = Inr (v, c')"
  then obtain v0 s byte where l: "leb_read_loop c 0 0 = Inr (v0, s, byte, c')"
    and le: "(if byte AND 0x40 \<noteq> 0 then v0 OR push_bit s (- 1) else v0) \<le> 2 ^ 63 - 1"
    and v: "v = (if byte AND 0x40 \<noteq> 0 then v0 OR push_bit s (- 1) else v0)"
    by (auto simp: I64_readOrThrow_def andThen_Inr_iff Let_def split: if_splits)
  from l obtain bs where bs: "leb_ok 0 bs" "after c = bs @ after c'"
    "(if byte AND 0x40 \<noteq> 0 then v0 OR push_bit s (- 1) else v0) = sign_extend bs"
    by (rule signed_read_Inr)
  have k: "1 \<le> length bs" "length bs \<le> 10" using leb_ok_length[OF bs(1)] by simp_all
  have se: "v = sign_extend bs" using v bs(3) by simp
  have bsn: "bs \<noteq> []" using bs(1) by (simp add: leb_ok_def)
  have r: "- (2 ^ (7 * length bs - 1)) \<le> v" "v < 2 ^ (7 * length bs - 1)"
    using sign_extend_range[OF bsn] se by simp_all
  have p: "(2::int) ^ (7 * length bs - 1) \<le> 2 ^ 69" using k by (intro pow_le_69)
  have a1: "leb_ok 0 (sleb v)" using r p by (intro sleb_leb_ok) simp_all
  have a4: "length (sleb v) \<le> length bs" using r k by (intro sleb_length) simp_all
  have "reads I64_readOrThrow (sleb v) v"
    unfolding reads_def using I64_read_reads[OF a1] sign_extend_sleb[of v] le v by simp
  then show "any_ok v \<and> reads I64_readOrThrow (sleb v) v \<and>
      length (sleb v) + length (after c') \<le> length (after c)"
    using a4 bs(2) by (simp add: any_ok_def)
qed

lemma u8_decodes: "decodes readUint8OrThrow any_ok u8_bytes"
  by (rule decodesI)
     (auto simp: readUint8OrThrow_def any_ok_def u8_bytes_def reads_def split: list.splits)

lemma F32_decodes: "decodes readFloat32OrThrow any_ok f32_bytes"
  by (rule decodesI)
     (auto simp: readFloat32OrThrow_def any_ok_def f32_bytes_def reads_def split: list.splits)

lemma F64_decodes: "decodes readFloat64OrThrow any_ok f64_bytes"
  by (rule decodesI)
     (auto simp: readFloat64OrThrow_def any_ok_def f64_bytes_def f32_bytes_def reads_def
       split: list.splits)

lemma readOrThrow_exact [simp]:
  "readOrThrow \<lparr>before = p, after = bs @ rest\<rparr> (length bs) =
     Inr (bs, \<lparr>before = p @ bs, after = rest\<rparr>)"
  by (simp add: readOrThrow_def remaining_def)

lemma bytes_decodes: "decodes bytes_readOrThrow any_ok sized_bytes"
proof (rule decodesI)
  fix c v c'
  assume "bytes_readOrThrow c = Inr (v, c')"
  then obtain n c1 where n: "U32_readOrThrow c = Inr (n, c1)" and r: "readOrThrow c1 (nat n) = Inr (v, c')"
    by (auto simp: bytes_readOrThrow_def andThen_Inr_iff)
  from decodesD[OF U32_decodes n] have u: "u32_ok n" "reads U32_readOrThrow (uleb n) n"
    "length (uleb n) + length (after c1) \<le> length (after c)" by simp_all
  from r have v: "length v = nat n" "length v + length (after c') = length (after c1)"
    by (auto simp: readOrThrow_def remaining_def split: if_splits)
  have n: "n = int (length v)" using v(1) u(1) by (simp add: u32_ok_def)
  have "reads bytes_readOrThrow (sized_bytes v) v"
    using u(2) unfolding reads_def bytes_readOrThrow_def sized_bytes_def n by simp
  then show "any_ok v \<and> reads bytes_readOrThrow (sized_bytes v) v \<and>
      length (sized_bytes v) + length (after c') \<le> length (after c)"
    using u(3) v(2) by (simp add: any_ok_def sized_bytes_def n)
qed

lemma read_times_length: "read_times n r c = Inr (xs, c') \<Longrightarrow> length xs = n"
  by (induction n arbitrary: c xs) (auto simp: andThen_Inr_iff)

lemma times_decodes:
  assumes "decodes r ok enc"
  shows "decodes (read_times n r) (list_all ok) (\<lambda>xs. concat (map enc xs))"
proof (induction n)
  case 0
  show ?case by (rule decodesI) (simp add: reads_def)
next
  case (Suc n)
  show ?case
  proof (rule decodesI)
    fix c v c'
    assume "read_times (Suc n) r c = Inr (v, c')"
    then obtain x c1 xs where x: "r c = Inr (x, c1)" and xs: "read_times n r c1 = Inr (xs, c')"
      and v: "v = x # xs"
      by (auto simp: andThen_Inr_iff)
    from decodesD[OF assms x] have a: "ok x" "reads r (enc x) x"
      "length (enc x) + length (after c1) \<le> length (after c)" by simp_all
    from decodesD[OF Suc xs] have b: "list_all ok xs" "reads (read_times n r) (concat (map enc xs)) xs"
      "length (concat (map enc xs)) + length (after c') \<le> length (after c1)" by simp_all
    have "reads (read_times (Suc n) r) (concat (map enc v)) v"
      using a(2) b(2) unfolding reads_def v by simp
    then show "list_all ok v \<and> reads (read_times (Suc n) r) (concat (map enc v)) v \<and>
        length (concat (map enc v)) + length (after c') \<le> length (after c)"
      using a(1,3) b(1,3) by (simp add: v)
  qed
qed

lemma counted_decodes:
  assumes "decodes r ok enc"
  shows "decodes (counted_readOrThrow r) (list_all ok) (counted_bytes enc)"
proof (rule decodesI)
  fix c v c'
  assume "counted_readOrThrow r c = Inr (v, c')"
  then obtain n c1 where n: "U32_readOrThrow c = Inr (n, c1)"
    and r: "read_times (nat n) r c1 = Inr (v, c')"
    by (auto simp: counted_readOrThrow_def andThen_Inr_iff)
  from decodesD[OF U32_decodes n] have u: "u32_ok n" "reads U32_readOrThrow (uleb n) n"
    "length (uleb n) + length (after c1) \<le> length (after c)" by simp_all
  from decodesD[OF times_decodes[OF assms] r] have b: "list_all ok v"
    "reads (read_times (nat n) r) (concat (map enc v)) v"
    "length (concat (map enc v)) + length (after c') \<le> length (after c1)" by simp_all
  have n: "n = int (length v)" using read_times_length[OF r] u(1) by (simp add: u32_ok_def)
  have "reads (counted_readOrThrow r) (counted_bytes enc v) v"
    using u(2) b(2) unfolding reads_def counted_readOrThrow_def counted_bytes_def n by simp
  then show "list_all ok v \<and> reads (counted_readOrThrow r) (counted_bytes enc v) v \<and>
      length (counted_bytes enc v) + length (after c') \<le> length (after c)"
    using u(3) b(1,3) by (simp add: counted_bytes_def n)
qed

lemma max_decodes: "decodes (max_readOrThrow flag) max_ok max_bytes"
proof (rule decodesI)
  fix c v c'
  assume m: "max_readOrThrow flag c = Inr (v, c')"
  show "max_ok v \<and> reads (max_readOrThrow flag) (max_bytes v) v \<and>
      length (max_bytes v) + length (after c') \<le> length (after c)"
  proof (cases "flag AND 0x01 \<noteq> 0")
    case True
    with m obtain n where n: "U32_readOrThrow c = Inr (n, c')" and v: "v = Some n"
      by (auto simp: max_readOrThrow_def andThen_Inr_iff)
    from decodesD[OF U32_decodes n] have u: "u32_ok n" "reads U32_readOrThrow (uleb n) n"
      "length (uleb n) + length (after c') \<le> length (after c)" by simp_all
    have "reads (max_readOrThrow flag) (max_bytes v) v"
      using u(2) True unfolding reads_def max_readOrThrow_def max_bytes_def v by simp
    then show ?thesis using u by (simp add: v max_ok_def max_bytes_def)
  next
    case False
    with m have v: "v = None" "c' = c" by (auto simp: max_readOrThrow_def)
    show ?thesis using False by (simp add: v max_ok_def max_bytes_def reads_def max_readOrThrow_def)
  qed
qed

subsection \<open>Descriptors\<close>

lemma readUint8_cons [simp]:
  "readUint8OrThrow \<lparr>before = p, after = b # rest\<rparr> = Inr (b, \<lparr>before = p @ [b], after = rest\<rparr>)"
  by (simp add: readUint8OrThrow_def)

lemmas leaf_dests =
  decodesD[OF u8_decodes] decodesD[OF U32_decodes] decodesD[OF max_decodes]
  decodesD[OF bytes_decodes] decodesD[OF I32_decodes] decodesD[OF I33_decodes]
  decodesD[OF I64_decodes] decodesD[OF F32_decodes] decodesD[OF F64_decodes]

lemma TableDescriptor_decodes:
  "decodes TableDescriptor_readOrThrow TableDescriptor_ok TableDescriptor_bytes"
  unfolding decodes_def TableDescriptor_readOrThrow_def
  by (auto simp: andThen_Inr_iff reads_def u8_bytes_def dest!: leaf_dests)

lemma MemoryDescriptor_decodes:
  "decodes MemoryDescriptor_readOrThrow MemoryDescriptor_ok MemoryDescriptor_bytes"
  unfolding decodes_def MemoryDescriptor_readOrThrow_def
  by (auto simp: andThen_Inr_iff reads_def u8_bytes_def dest!: leaf_dests)

lemma ExportDescriptor_decodes:
  "decodes ExportDescriptor_readOrThrow ExportDescriptor_ok ExportDescriptor_bytes"
  unfolding decodes_def ExportDescriptor_readOrThrow_def
  by (auto simp: andThen_Inr_iff reads_def u8_bytes_def dest!: leaf_dests)

lemma Local_decodes: "decodes Local_readOrThrow Local_ok Local_bytes"
  unfolding decodes_def Local_readOrThrow_def
  by (auto simp: andThen_Inr_iff reads_def u8_bytes_def dest!: leaf_dests)

lemma tag_decodes: "decodes tag_readOrThrow tag_ok tag_bytes"
  unfolding decodes_def tag_readOrThrow_def
  by (auto simp: andThen_Inr_iff reads_def u8_bytes_def tag_ok_def tag_bytes_def dest!: leaf_dests)

lemma field_decodes: "decodes field_readOrThrow any_ok field_bytes"
  unfolding decodes_def field_readOrThrow_def
  by (auto simp: andThen_Inr_iff reads_def u8_bytes_def field_bytes_def bool_byte_def any_ok_def
      dest!: leaf_dests)

lemma FuncType_decodes: "decodes FuncType_readOrThrow (\<lambda>b. TypeBody_kind b = 0x60) TypeBody_bytes"
  unfolding decodes_def FuncType_readOrThrow_def
  by (auto simp: andThen_Inr_iff reads_def any_ok_def
      dest!: decodesD[OF counted_decodes[OF u8_decodes]])

lemma StructType_decodes: "decodes StructType_readOrThrow (\<lambda>b. TypeBody_kind b = 0x5E) TypeBody_bytes"
  unfolding decodes_def StructType_readOrThrow_def
  by (auto simp: andThen_Inr_iff reads_def any_ok_def
      dest!: decodesD[OF counted_decodes[OF field_decodes]])

lemma ArrayType_decodes: "decodes ArrayType_readOrThrow (\<lambda>b. TypeBody_kind b = 0x5F) TypeBody_bytes"
  unfolding decodes_def ArrayType_readOrThrow_def
  by (auto simp: andThen_Inr_iff reads_def u8_bytes_def bool_byte_def any_ok_def
      dest!: leaf_dests)

lemma TypeDescriptor_decodes:
  "decodes TypeDescriptor_readOrThrow TypeDescriptor_ok TypeDescriptor_bytes"
proof (rule decodesI)
  fix c v c'
  assume "TypeDescriptor_readOrThrow c = Inr (v, c')"
  then obtain prefix c1 where p: "readUint8OrThrow c = Inr (prefix, c1)"
    and r: "(if prefix = 0x60
       then andThen (FuncType_readOrThrow c1) (\<lambda>(body, c). Inr (TypeDescriptor prefix [] body, c))
       else andThen (if prefix = 0x4E \<or> prefix = 0x4D
                     then counted_readOrThrow U32_readOrThrow c1
                     else Inr ([], c1)) (\<lambda>(subtypes, c).
              andThen (readUint8OrThrow c) (\<lambda>(kind, c).
                if kind = 0x60
                then andThen (FuncType_readOrThrow c) (\<lambda>(body, c).
                       Inr (TypeDescriptor prefix subtypes body, c))
                else if kind = 0x5E
                then andThen (StructType_readOrThrow c) (\<lambda>(body, c).
                       Inr (TypeDescriptor prefix subtypes body, c))
                else if kind = 0x5F
                then andThen (ArrayType_readOrThrow c) (\<lambda>(body, c).
                       Inr (TypeDescriptor prefix subtypes body, c))
                else Inl (UnknownTypeKind kind)))) = Inr (v, c')"
    by (auto simp: TypeDescriptor_readOrThrow_def andThen_Inr_iff)
  have l1: "Suc (length (after c1)) \<le> length (after c)"
    using decodesD[OF u8_decodes p] by (simp add: u8_bytes_def)
  show "TypeDescriptor_ok v \<and> reads TypeDescriptor_readOrThrow (TypeDescriptor_bytes v) v \<and>
      length (TypeDescriptor_bytes v) + length (after c') \<le> length (after c)"
  proof (cases "prefix = 0x60")
    case True
    with r obtain tbody where b: "FuncType_readOrThrow c1 = Inr (tbody, c')"
      and v: "v = TypeDescriptor prefix [] tbody"
      by (auto simp: andThen_Inr_iff)
    show ?thesis
      using True l1 decodesD[OF FuncType_decodes b] unfolding v reads_def TypeDescriptor_readOrThrow_def
      by simp
  next
    case False
    with r obtain subtypes c2 kind c3 tbody where
      s: "(if prefix = 0x4E \<or> prefix = 0x4D then counted_readOrThrow U32_readOrThrow c1
           else Inr ([], c1)) = Inr (subtypes, c2)"
      and k: "readUint8OrThrow c2 = Inr (kind, c3)"
      and b: "(if kind = 0x60 then FuncType_readOrThrow c3
               else if kind = 0x5E then StructType_readOrThrow c3
               else if kind = 0x5F then ArrayType_readOrThrow c3
               else Inl (UnknownTypeKind kind)) = Inr (tbody, c')"
      and v: "v = TypeDescriptor prefix subtypes tbody"
      by (auto simp: andThen_Inr_iff split: if_splits)
    have l3: "Suc (length (after c3)) \<le> length (after c2)"
      using decodesD[OF u8_decodes k] by (simp add: u8_bytes_def)
    have ss: "list_all u32_ok subtypes \<and>
        reads (\<lambda>c. if prefix = 0x4E \<or> prefix = 0x4D then counted_readOrThrow U32_readOrThrow c
           else Inr ([], c))
          (if prefix = 0x4E \<or> prefix = 0x4D then counted_bytes uleb subtypes else []) subtypes \<and>
        length (if prefix = 0x4E \<or> prefix = 0x4D then counted_bytes uleb subtypes else [])
          + length (after c2) \<le> length (after c1)"
      using s
      by (auto simp: reads_def split: if_splits dest!: decodesD[OF counted_decodes[OF U32_decodes]])
    from b consider
        (func) "kind = 0x60" "FuncType_readOrThrow c3 = Inr (tbody, c')"
      | (struct) "kind = 0x5E" "StructType_readOrThrow c3 = Inr (tbody, c')"
      | (array) "kind = 0x5F" "ArrayType_readOrThrow c3 = Inr (tbody, c')"
      by (auto split: if_splits)
    then show ?thesis
    proof cases
      case func
      show ?thesis
        using False ss l1 l3 func(1) decodesD[OF FuncType_decodes func(2)]
        unfolding v reads_def TypeDescriptor_readOrThrow_def
        by (cases "prefix = 0x4E \<or> prefix = 0x4D") simp_all
    next
      case struct
      show ?thesis
        using False ss l1 l3 struct(1) decodesD[OF StructType_decodes struct(2)]
        unfolding v reads_def TypeDescriptor_readOrThrow_def
        by (cases "prefix = 0x4E \<or> prefix = 0x4D") simp_all
    next
      case array
      show ?thesis
        using False ss l1 l3 array(1) decodesD[OF ArrayType_decodes array(2)]
        unfolding v reads_def TypeDescriptor_readOrThrow_def
        by (cases "prefix = 0x4E \<or> prefix = 0x4D") simp_all
    qed
  qed
qed

lemma decodes_if:
  "(b \<Longrightarrow> decodes r ok enc) \<Longrightarrow> (\<not> b \<Longrightarrow> decodes s ok enc) \<Longrightarrow>
   decodes (\<lambda>c. if b then r c else s c) ok enc"
  by (cases b) simp_all

lemma decodes_throw: "decodes (\<lambda>c. Inl e) ok enc"
  by (simp add: decodes_def)

lemma decodes_bind:
  assumes r: "decodes r ok1 enc1"
    and f: "\<And>x. ok1 x \<Longrightarrow> decodes (f x) (\<lambda>v. ok v \<and> proj v = x) enc2"
  shows "decodes (\<lambda>c. andThen (r c) (\<lambda>(x, c). f x c)) ok (\<lambda>v. enc1 (proj v) @ enc2 v)"
proof (rule decodesI)
  fix c v c'
  assume "andThen (r c) (\<lambda>(x, c). f x c) = Inr (v, c')"
  then obtain x c1 where x: "r c = Inr (x, c1)" and v: "f x c1 = Inr (v, c')"
    by (auto simp: andThen_Inr_iff)
  from decodesD[OF r x] have a: "ok1 x" "reads r (enc1 x) x"
    "length (enc1 x) + length (after c1) \<le> length (after c)" by simp_all
  from decodesD[OF f[OF a(1)] v] have b: "ok v" "proj v = x" "reads (f x) (enc2 v) v"
    "length (enc2 v) + length (after c') \<le> length (after c1)" by simp_all
  have "reads (\<lambda>c. andThen (r c) (\<lambda>(x, c). f x c)) (enc1 (proj v) @ enc2 v) v"
    using a(2) b(3) unfolding reads_def b(2) by simp
  then show "ok v \<and> reads (\<lambda>c. andThen (r c) (\<lambda>(x, c). f x c)) (enc1 (proj v) @ enc2 v) v \<and>
      length (enc1 (proj v) @ enc2 v) + length (after c') \<le> length (after c)"
    using a(3) b(1,2,4) by simp
qed

lemma decodes_weaken:
  assumes "decodes r ok enc" "\<And>v. ok v \<Longrightarrow> ok' v \<and> enc v = enc' v"
  shows "decodes r ok' enc'"
proof (rule decodesI)
  fix c v c'
  assume "r c = Inr (v, c')"
  from decodesD[OF assms(1) this] assms(2)[of v]
  show "ok' v \<and> reads r (enc' v) v \<and> length (enc' v) + length (after c') \<le> length (after c)"
    by simp
qed

subsection \<open>Instructions\<close>

definition params_bytes :: "Instruction \<Rightarrow> byte list" where
  "params_bytes i = concat (map Writable_bytes (params i))"

definition Instruction_of :: "byte \<Rightarrow> Instruction \<Rightarrow> bool" where
  "Instruction_of opc i \<longleftrightarrow> Instruction_ok i \<and> opcode i = opc"

lemmas instr_simps =
  andThen_Inr_iff reads_def Instruction_of_def Instruction_ok_def params_bytes_def u32_ok_def
  any_ok_def u8_bytes_def

lemma leaf_none: "decodes (\<lambda>c. Inr (Instruction opc [], c)) (Instruction_of opc) params_bytes"
  unfolding decodes_def by (auto simp: instr_simps)

lemma leaf_I33:
  "decodes (\<lambda>c. andThen (I33_readOrThrow c) (\<lambda>(a, c). Inr (Instruction opc [I33 a], c)))
     (Instruction_of opc) params_bytes"
  unfolding decodes_def by (auto simp: instr_simps dest!: leaf_dests)

lemma leaf_U32:
  "decodes (\<lambda>c. andThen (U32_readOrThrow c) (\<lambda>(a, c). Inr (Instruction opc [U32 a], c)))
     (Instruction_of opc) params_bytes"
  unfolding decodes_def by (auto simp: instr_simps dest!: leaf_dests)

lemma leaf_U32_U32:
  "decodes (\<lambda>c. andThen (U32_readOrThrow c) (\<lambda>(a, c).
              andThen (U32_readOrThrow c) (\<lambda>(b, c). Inr (Instruction opc [U32 a, U32 b], c))))
     (Instruction_of opc) params_bytes"
  unfolding decodes_def by (auto simp: instr_simps dest!: leaf_dests)

lemma leaf_I32:
  "decodes (\<lambda>c. andThen (I32_readOrThrow c) (\<lambda>(a, c). Inr (Instruction opc [I32 a], c)))
     (Instruction_of opc) params_bytes"
  unfolding decodes_def by (auto simp: instr_simps dest!: leaf_dests)

lemma leaf_I64:
  "decodes (\<lambda>c. andThen (I64_readOrThrow c) (\<lambda>(a, c). Inr (Instruction opc [I64 a], c)))
     (Instruction_of opc) params_bytes"
  unfolding decodes_def by (auto simp: instr_simps dest!: leaf_dests)

lemma leaf_F32:
  "decodes (\<lambda>c. andThen (readFloat32OrThrow c) (\<lambda>(a, c). Inr (Instruction opc [F32 a], c)))
     (Instruction_of opc) params_bytes"
  unfolding decodes_def by (auto simp: instr_simps dest!: leaf_dests)

lemma leaf_F64:
  "decodes (\<lambda>c. andThen (readFloat64OrThrow c) (\<lambda>(a, c). Inr (Instruction opc [F64 a], c)))
     (Instruction_of opc) params_bytes"
  unfolding decodes_def by (auto simp: instr_simps dest!: leaf_dests)

lemma times_U32:
  assumes "read_times n U32_readOrThrow c = Inr (xs, c')"
  shows "list_all u32_ok xs \<and> length xs = n \<and>
     reads (read_times n U32_readOrThrow) (concat (map uleb xs)) xs \<and>
     length (concat (map uleb xs)) + length (after c') \<le> length (after c)"
  using decodesD[OF times_decodes[OF U32_decodes] assms] read_times_length[OF assms] by simp

lemma Writable_U32s [simp]:
  "Writable_bytes \<circ> U32 = uleb" "Writable_ok \<circ> U32 = u32_ok"
  by (simp_all add: fun_eq_iff)

lemma list_all_U32 [simp]: "list_all Writable_ok (map U32 xs) = list_all u32_ok xs"
  by (induction xs) simp_all

lemma leaf_br_table:
  "decodes (\<lambda>c. andThen (U32_readOrThrow c) (\<lambda>(count, c).
              andThen (read_times (nat count) U32_readOrThrow c) (\<lambda>(labels, c).
                andThen (U32_readOrThrow c) (\<lambda>(fallback, c).
                  Inr (Instruction opc ([U32 count] @ map U32 labels @ [U32 fallback]), c)))))
     (Instruction_of opc) params_bytes"
proof (rule decodesI)
  fix c v c'
  assume "andThen (U32_readOrThrow c) (\<lambda>(count, c).
              andThen (read_times (nat count) U32_readOrThrow c) (\<lambda>(labels, c).
                andThen (U32_readOrThrow c) (\<lambda>(fallback, c).
                  Inr (Instruction opc ([U32 count] @ map U32 labels @ [U32 fallback]), c)))) =
      Inr (v, c')"
  then obtain count c1 labels c2 fallback where
    a: "U32_readOrThrow c = Inr (count, c1)"
    and b: "read_times (nat count) U32_readOrThrow c1 = Inr (labels, c2)"
    and d: "U32_readOrThrow c2 = Inr (fallback, c')"
    and v: "v = Instruction opc ([U32 count] @ map U32 labels @ [U32 fallback])"
    by (auto simp: andThen_Inr_iff)
  show "Instruction_of opc v \<and>
      reads (\<lambda>c. andThen (U32_readOrThrow c) (\<lambda>(count, c).
              andThen (read_times (nat count) U32_readOrThrow c) (\<lambda>(labels, c).
                andThen (U32_readOrThrow c) (\<lambda>(fallback, c).
                  Inr (Instruction opc ([U32 count] @ map U32 labels @ [U32 fallback]), c)))))
        (params_bytes v) v \<and>
      length (params_bytes v) + length (after c') \<le> length (after c)"
    using decodesD[OF U32_decodes a] times_U32[OF b] decodesD[OF U32_decodes d]
    unfolding v reads_def Instruction_of_def Instruction_ok_def params_bytes_def
    by simp
qed

lemma leaf_select:
  "decodes (\<lambda>c. andThen (U32_readOrThrow c) (\<lambda>(count, c).
              andThen (read_times (nat count) U32_readOrThrow c) (\<lambda>(types, c).
                Inr (Instruction opc ([U32 count] @ map U32 types), c))))
     (Instruction_of opc) params_bytes"
proof (rule decodesI)
  fix c v c'
  assume "andThen (U32_readOrThrow c) (\<lambda>(count, c).
              andThen (read_times (nat count) U32_readOrThrow c) (\<lambda>(types, c).
                Inr (Instruction opc ([U32 count] @ map U32 types), c))) = Inr (v, c')"
  then obtain count c1 types where
    a: "U32_readOrThrow c = Inr (count, c1)"
    and b: "read_times (nat count) U32_readOrThrow c1 = Inr (types, c')"
    and v: "v = Instruction opc ([U32 count] @ map U32 types)"
    by (auto simp: andThen_Inr_iff)
  show "Instruction_of opc v \<and>
      reads (\<lambda>c. andThen (U32_readOrThrow c) (\<lambda>(count, c).
              andThen (read_times (nat count) U32_readOrThrow c) (\<lambda>(types, c).
                Inr (Instruction opc ([U32 count] @ map U32 types), c))))
        (params_bytes v) v \<and>
      length (params_bytes v) + length (after c') \<le> length (after c)"
    using decodesD[OF U32_decodes a] times_U32[OF b]
    unfolding v reads_def Instruction_of_def Instruction_ok_def params_bytes_def
    by simp
qed

lemma catch_decodes:
  "decodes catch_readOrThrow (list_all Writable_ok) (\<lambda>ws. concat (map Writable_bytes ws))"
proof (rule decodesI)
  fix c v c'
  assume "catch_readOrThrow c = Inr (v, c')"
  then obtain kind c1 where k: "readUint8OrThrow c = Inr (kind, c1)"
    and r: "(if kind < 2
       then andThen (U32_readOrThrow c1) (\<lambda>(tag, c).
              andThen (U32_readOrThrow c) (\<lambda>(label, c). Inr ([U8 kind, U32 tag, U32 label], c)))
       else andThen (U32_readOrThrow c1) (\<lambda>(label, c). Inr ([U8 kind, U32 label], c))) = Inr (v, c')"
    by (auto simp: catch_readOrThrow_def andThen_Inr_iff)
  have l1: "Suc (length (after c1)) \<le> length (after c)"
    using decodesD[OF u8_decodes k] by (simp add: u8_bytes_def)
  show "list_all Writable_ok v \<and> reads catch_readOrThrow (concat (map Writable_bytes v)) v \<and>
      length (concat (map Writable_bytes v)) + length (after c') \<le> length (after c)"
  proof (cases "kind < 2")
    case True
    with r obtain tag c2 label where a: "U32_readOrThrow c1 = Inr (tag, c2)"
      and b: "U32_readOrThrow c2 = Inr (label, c')" and v: "v = [U8 kind, U32 tag, U32 label]"
      by (auto simp: andThen_Inr_iff)
    show ?thesis
      using True l1 decodesD[OF U32_decodes a] decodesD[OF U32_decodes b]
      unfolding v reads_def catch_readOrThrow_def by simp
  next
    case False
    with r obtain label where b: "U32_readOrThrow c1 = Inr (label, c')" and v: "v = [U8 kind, U32 label]"
      by (auto simp: andThen_Inr_iff)
    show ?thesis
      using False l1 decodesD[OF U32_decodes b]
      unfolding v reads_def catch_readOrThrow_def by simp
  qed
qed

lemma concat_map_concat: "concat (map f (concat xss)) = concat (map (\<lambda>xs. concat (map f xs)) xss)"
  by (induction xss) simp_all

lemma list_all_concat: "list_all P (concat xss) = list_all (list_all P) xss"
  by (induction xss) simp_all

lemma leaf_try_table:
  "decodes (\<lambda>c. andThen (I33_readOrThrow c) (\<lambda>(blocktype, c).
              andThen (U32_readOrThrow c) (\<lambda>(count, c).
                andThen (read_times (nat count) catch_readOrThrow c) (\<lambda>(catches, c).
                  Inr (Instruction opc ([I33 blocktype, U32 count] @ concat catches), c)))))
     (Instruction_of opc) params_bytes"
proof (rule decodesI)
  fix c v c'
  assume "andThen (I33_readOrThrow c) (\<lambda>(blocktype, c).
              andThen (U32_readOrThrow c) (\<lambda>(count, c).
                andThen (read_times (nat count) catch_readOrThrow c) (\<lambda>(catches, c).
                  Inr (Instruction opc ([I33 blocktype, U32 count] @ concat catches), c)))) =
      Inr (v, c')"
  then obtain blocktype c1 count c2 catches where
    a: "I33_readOrThrow c = Inr (blocktype, c1)"
    and b: "U32_readOrThrow c1 = Inr (count, c2)"
    and d: "read_times (nat count) catch_readOrThrow c2 = Inr (catches, c')"
    and v: "v = Instruction opc ([I33 blocktype, U32 count] @ concat catches)"
    by (auto simp: andThen_Inr_iff)
  show "Instruction_of opc v \<and>
      reads (\<lambda>c. andThen (I33_readOrThrow c) (\<lambda>(blocktype, c).
              andThen (U32_readOrThrow c) (\<lambda>(count, c).
                andThen (read_times (nat count) catch_readOrThrow c) (\<lambda>(catches, c).
                  Inr (Instruction opc ([I33 blocktype, U32 count] @ concat catches), c)))))
        (params_bytes v) v \<and>
      length (params_bytes v) + length (after c') \<le> length (after c)"
    using decodesD[OF I33_decodes a] decodesD[OF U32_decodes b]
      decodesD[OF times_decodes[OF catch_decodes] d]
    unfolding v reads_def Instruction_of_def Instruction_ok_def params_bytes_def
    by (simp add: concat_map_concat list_all_concat)
qed

lemma leaf_subopcode:
  "decodes (\<lambda>c. andThen (U32_readOrThrow c) (\<lambda>(subopcode, c). subopcode_readOrThrow opc subopcode c))
     (Instruction_of opc) params_bytes"
proof (rule decodesI)
  fix c v c'
  assume "andThen (U32_readOrThrow c) (\<lambda>(subopcode, c). subopcode_readOrThrow opc subopcode c) =
      Inr (v, c')"
  then obtain s c1 where a: "U32_readOrThrow c = Inr (s, c1)"
    and r: "subopcode_readOrThrow opc s c1 = Inr (v, c')"
    by (auto simp: andThen_Inr_iff)
  note A = decodesD[OF U32_decodes a]
  from r consider
      (one) "0x00 \<le> s \<and> s \<le> 0x07" "v = Instruction opc [U32 s]" "c' = c1"
    | (three) x c2 y where "\<not> (0x00 \<le> s \<and> s \<le> 0x07)"
        "s = 0x08 \<or> s = 0x0a \<or> s = 0x0c \<or> s = 0x0e"
        "U32_readOrThrow c1 = Inr (x, c2)" "U32_readOrThrow c2 = Inr (y, c')"
        "v = Instruction opc [U32 s, U32 x, U32 y]"
    | (two) x where "\<not> (0x00 \<le> s \<and> s \<le> 0x07)"
        "\<not> (s = 0x08 \<or> s = 0x0a \<or> s = 0x0c \<or> s = 0x0e)"
        "s = 0x09 \<or> s = 0x0b \<or> s = 0x0d \<or> s = 0x0f \<or> s = 0x10 \<or> s = 0x11"
        "U32_readOrThrow c1 = Inr (x, c')" "v = Instruction opc [U32 s, U32 x]"
    unfolding subopcode_readOrThrow_def
    by (auto simp: andThen_Inr_iff split: if_splits)
  then show "Instruction_of opc v \<and>
      reads (\<lambda>c. andThen (U32_readOrThrow c) (\<lambda>(subopcode, c). subopcode_readOrThrow opc subopcode c))
        (params_bytes v) v \<and>
      length (params_bytes v) + length (after c') \<le> length (after c)"
  proof cases
    case one
    show ?thesis
      using A one(1) unfolding one(2,3) reads_def Instruction_of_def Instruction_ok_def params_bytes_def
        subopcode_readOrThrow_def
      by simp
  next
    case three
    show ?thesis
      using A three(1,2) decodesD[OF U32_decodes three(3)] decodesD[OF U32_decodes three(4)]
      unfolding three(5) reads_def Instruction_of_def Instruction_ok_def params_bytes_def
        subopcode_readOrThrow_def
      by simp
  next
    case two
    show ?thesis
      using A two(1,2,3) decodesD[OF U32_decodes two(4)]
      unfolding two(5) reads_def Instruction_of_def Instruction_ok_def params_bytes_def
        subopcode_readOrThrow_def
      by simp
  qed
qed

lemmas Instruction_leaves =
  leaf_none leaf_I33 leaf_U32 leaf_U32_U32 leaf_I32 leaf_I64 leaf_F32 leaf_F64
  leaf_br_table leaf_select leaf_try_table leaf_subopcode

lemma Instruction_decodes: "decodes Instruction_readOrThrow Instruction_ok Instruction_bytes"
proof -
  have "decodes Instruction_readOrThrow Instruction_ok (\<lambda>i. u8_bytes (opcode i) @ params_bytes i)"
    unfolding Instruction_readOrThrow_def
    by (rule decodes_bind[OF u8_decodes], fold Instruction_of_def)
       (intro decodes_if decodes_throw Instruction_leaves)
  then show ?thesis
    by (rule decodes_weaken) (simp add: u8_bytes_def params_bytes_def Instruction_bytes_def)
qed

subsection \<open>Instruction sequences\<close>

lemma expression_decodes_aux:
  "expression_readOrThrow c = Inr (v, c') \<Longrightarrow>
   expression_ok v \<and> reads expression_readOrThrow (expression_bytes v) v \<and>
   length (expression_bytes v) + length (after c') \<le> length (after c)"
proof (induction c arbitrary: v c' rule: expression_readOrThrow.induct)
  case (1 c)
  from "1.prems" obtain i c1 where i: "Instruction_readOrThrow c = Inr (i, c1)"
    and r: "(if opcode i = 0x0b then Inr ([i], c1)
             else andThen (expression_readOrThrow c1) (\<lambda>(instructions, c'').
                    Inr (i # instructions, c''))) = Inr (v, c')"
    by (subst (asm) expression_readOrThrow.simps) (auto simp: andThen_Inr_iff)
  note I = decodesD[OF Instruction_decodes i]
  show ?case
  proof (cases "opcode i = 0x0b")
    case True
    with r have v: "v = [i]" "c' = c1" by simp_all
    have "expression_readOrThrow \<lparr>before = p, after = Instruction_bytes i @ rest\<rparr> =
        Inr ([i], \<lparr>before = p @ Instruction_bytes i, after = rest\<rparr>)" for p rest
      using I True by (subst expression_readOrThrow.simps) (simp add: reads_def)
    then show ?thesis using I by (simp add: v reads_def expression_ok_def expression_bytes_def)
  next
    case False
    with r obtain instructions where rr: "expression_readOrThrow c1 = Inr (instructions, c')"
      and v: "v = i # instructions"
      by (auto simp: andThen_Inr_iff)
    note IH = "1.IH"[OF i refl False rr]
    have "expression_readOrThrow
          \<lparr>before = p, after = Instruction_bytes i @ expression_bytes instructions @ rest\<rparr> =
        Inr (i # instructions,
             \<lparr>before = p @ Instruction_bytes i @ expression_bytes instructions, after = rest\<rparr>)"
      for p rest
      using I IH False by (subst expression_readOrThrow.simps) (simp add: reads_def)
    then show ?thesis using I IH by (simp add: v reads_def expression_ok_def expression_bytes_def)
  qed
qed

lemma expression_decodes: "decodes expression_readOrThrow expression_ok expression_bytes"
  by (rule decodesI) (rule expression_decodes_aux)

definition reads_all :: "(cursor \<Rightarrow> error + ('a \<times> cursor)) \<Rightarrow> byte list \<Rightarrow> 'a \<Rightarrow> bool" where
  "reads_all r bs v \<longleftrightarrow>
     (\<forall>p. r \<lparr>before = p, after = bs\<rparr> = Inr (v, \<lparr>before = p @ bs, after = []\<rparr>))"

lemma Instruction_bytes_nonempty [simp]: "Instruction_bytes i \<noteq> []"
  by (simp add: Instruction_bytes_def)

lemma instructions_decodes:
  "instructions_readOrThrow c = Inr (v, c') \<Longrightarrow>
   after c' = [] \<and> expression_ok v \<and> reads_all instructions_readOrThrow (expression_bytes v) v \<and>
   length (expression_bytes v) \<le> length (after c)"
proof (induction c arbitrary: v c' rule: instructions_readOrThrow.induct)
  case (1 c)
  show ?case
  proof (cases "remaining c > 0")
    case False
    with "1.prems" have v: "v = []" "c' = c"
      by (subst (asm) instructions_readOrThrow.simps, simp)+
    have "instructions_readOrThrow \<lparr>before = p, after = []\<rparr> = Inr ([], \<lparr>before = p, after = []\<rparr>)"
      for p
      by (subst instructions_readOrThrow.simps) (simp add: remaining_def)
    then show ?thesis using False
      by (simp add: v reads_all_def expression_ok_def expression_bytes_def remaining_def)
  next
    case True
    with "1.prems" obtain i c1 instructions where i: "Instruction_readOrThrow c = Inr (i, c1)"
      and rr: "instructions_readOrThrow c1 = Inr (instructions, c')" and v: "v = i # instructions"
      by (subst (asm) instructions_readOrThrow.simps) (auto simp: andThen_Inr_iff)
    note I = decodesD[OF Instruction_decodes i]
    note IH = "1.IH"[OF True i refl rr]
    have "instructions_readOrThrow
          \<lparr>before = p, after = Instruction_bytes i @ expression_bytes instructions\<rparr> =
        Inr (i # instructions,
             \<lparr>before = p @ Instruction_bytes i @ expression_bytes instructions, after = []\<rparr>)"
      for p
      using I IH reads_def[of Instruction_readOrThrow "Instruction_bytes i" i]
      by (subst instructions_readOrThrow.simps) (simp add: reads_all_def remaining_def)
    then show ?thesis using I IH by (simp add: v reads_all_def expression_ok_def expression_bytes_def)
  qed
qed

subsection \<open>Imports, globals, elements, code and data\<close>

lemma FunctionImport_decodes:
  "decodes FunctionImport_readOrThrow (\<lambda>b. ImportBody_ok b \<and> ImportBody_kind b = 0x00) ImportBody_bytes"
  unfolding decodes_def FunctionImport_readOrThrow_def
  by (auto simp: andThen_Inr_iff reads_def dest!: leaf_dests)

lemma TableImport_decodes:
  "decodes TableImport_readOrThrow (\<lambda>b. ImportBody_ok b \<and> ImportBody_kind b = 0x01) ImportBody_bytes"
  unfolding decodes_def TableImport_readOrThrow_def
  by (auto simp: andThen_Inr_iff reads_def u8_bytes_def dest!: leaf_dests)

lemma MemoryImport_decodes:
  "decodes MemoryImport_readOrThrow (\<lambda>b. ImportBody_ok b \<and> ImportBody_kind b = 0x02) ImportBody_bytes"
  unfolding decodes_def MemoryImport_readOrThrow_def
  by (auto simp: andThen_Inr_iff reads_def u8_bytes_def dest!: leaf_dests)

lemma GlobalImport_decodes:
  "decodes GlobalImport_readOrThrow (\<lambda>b. ImportBody_ok b \<and> ImportBody_kind b = 0x03) ImportBody_bytes"
  unfolding decodes_def GlobalImport_readOrThrow_def
  by (auto simp: andThen_Inr_iff reads_def u8_bytes_def dest!: leaf_dests)

lemma ImportDescriptor_decodes:
  "decodes ImportDescriptor_readOrThrow ImportDescriptor_ok ImportDescriptor_bytes"
proof (rule decodesI)
  fix c v c'
  assume "ImportDescriptor_readOrThrow c = Inr (v, c')"
  then obtain from_module c1 name c2 kind c3 ibody where
    m: "bytes_readOrThrow c = Inr (from_module, c1)"
    and n: "bytes_readOrThrow c1 = Inr (name, c2)"
    and k: "readUint8OrThrow c2 = Inr (kind, c3)"
    and b: "(if kind = 0x00 then FunctionImport_readOrThrow c3
             else if kind = 0x01 then TableImport_readOrThrow c3
             else if kind = 0x02 then MemoryImport_readOrThrow c3
             else if kind = 0x03 then GlobalImport_readOrThrow c3
             else Inl (UnknownImport kind)) = Inr (ibody, c')"
    and v: "v = ImportDescriptor from_module name ibody"
    by (auto simp: ImportDescriptor_readOrThrow_def andThen_Inr_iff split: if_splits)
  note M = decodesD[OF bytes_decodes m] and N = decodesD[OF bytes_decodes n]
  have l3: "Suc (length (after c3)) \<le> length (after c2)"
    using decodesD[OF u8_decodes k] by (simp add: u8_bytes_def)
  from b consider
      (func) "kind = 0x00" "FunctionImport_readOrThrow c3 = Inr (ibody, c')"
    | (table) "kind = 0x01" "TableImport_readOrThrow c3 = Inr (ibody, c')"
    | (memory) "kind = 0x02" "MemoryImport_readOrThrow c3 = Inr (ibody, c')"
    | (global) "kind = 0x03" "GlobalImport_readOrThrow c3 = Inr (ibody, c')"
    by (auto split: if_splits)
  then show "ImportDescriptor_ok v \<and> reads ImportDescriptor_readOrThrow (ImportDescriptor_bytes v) v \<and>
      length (ImportDescriptor_bytes v) + length (after c') \<le> length (after c)"
  proof cases
    case func
    show ?thesis
      using M N l3 func(1) decodesD[OF FunctionImport_decodes func(2)]
      unfolding v reads_def ImportDescriptor_readOrThrow_def by simp
  next
    case table
    show ?thesis
      using M N l3 table(1) decodesD[OF TableImport_decodes table(2)]
      unfolding v reads_def ImportDescriptor_readOrThrow_def by simp
  next
    case memory
    show ?thesis
      using M N l3 memory(1) decodesD[OF MemoryImport_decodes memory(2)]
      unfolding v reads_def ImportDescriptor_readOrThrow_def by simp
  next
    case global
    show ?thesis
      using M N l3 global(1) decodesD[OF GlobalImport_decodes global(2)]
      unfolding v reads_def ImportDescriptor_readOrThrow_def by simp
  qed
qed

lemma GlobalDescriptor_decodes:
  "decodes GlobalDescriptor_readOrThrow GlobalDescriptor_ok GlobalDescriptor_bytes"
  unfolding decodes_def GlobalDescriptor_readOrThrow_def
  by (auto simp: andThen_Inr_iff reads_def u8_bytes_def
      dest!: leaf_dests decodesD[OF expression_decodes])

definition ElementSegment_of :: "byte \<Rightarrow> ElementSegment \<Rightarrow> bool" where
  "ElementSegment_of flag v \<longleftrightarrow> ElementSegment_ok v \<and> ElementSegment_flag v = flag"

lemmas element_dests =
  leaf_dests decodesD[OF expression_decodes] decodesD[OF counted_decodes[OF U32_decodes]]
  decodesD[OF counted_decodes[OF expression_decodes]]

lemma Element0_decodes:
  "flag = 0 \<Longrightarrow>
   decodes (\<lambda>c. andThen (expression_readOrThrow c) (\<lambda>(instructions, c).
              andThen (counted_readOrThrow U32_readOrThrow c) (\<lambda>(funcidxs, c).
                Inr (Element0 instructions funcidxs, c))))
     (ElementSegment_of flag) (\<lambda>v. tl (ElementSegment_bytes v))"
  unfolding decodes_def ElementSegment_of_def
  by (auto simp: andThen_Inr_iff reads_def u8_bytes_def dest!: element_dests)

lemma Element1_decodes:
  "flag = 1 \<Longrightarrow>
   decodes (\<lambda>c. andThen (readUint8OrThrow c) (\<lambda>(reftype, c).
              andThen (counted_readOrThrow expression_readOrThrow c) (\<lambda>(elements, c).
                Inr (Element1 reftype elements, c))))
     (ElementSegment_of flag) (\<lambda>v. tl (ElementSegment_bytes v))"
  unfolding decodes_def ElementSegment_of_def
  by (auto simp: andThen_Inr_iff reads_def u8_bytes_def dest!: element_dests)

lemma Element2_decodes:
  "flag = 2 \<Longrightarrow>
   decodes (\<lambda>c. andThen (U32_readOrThrow c) (\<lambda>(tableidx, c).
              andThen (expression_readOrThrow c) (\<lambda>(instructions, c).
                andThen (readUint8OrThrow c) (\<lambda>(reftype, c).
                  andThen (counted_readOrThrow expression_readOrThrow c) (\<lambda>(elements, c).
                    Inr (Element2 tableidx instructions reftype elements, c))))))
     (ElementSegment_of flag) (\<lambda>v. tl (ElementSegment_bytes v))"
  unfolding decodes_def ElementSegment_of_def
  by (auto simp: andThen_Inr_iff reads_def u8_bytes_def dest!: element_dests)

lemma Element3_decodes:
  "flag = 3 \<Longrightarrow>
   decodes (\<lambda>c. andThen (readUint8OrThrow c) (\<lambda>(reftype, c).
              andThen (counted_readOrThrow expression_readOrThrow c) (\<lambda>(elements, c).
                Inr (Element3 reftype elements, c))))
     (ElementSegment_of flag) (\<lambda>v. tl (ElementSegment_bytes v))"
  unfolding decodes_def ElementSegment_of_def
  by (auto simp: andThen_Inr_iff reads_def u8_bytes_def dest!: element_dests)

lemma Element4_decodes:
  "flag = 4 \<Longrightarrow>
   decodes (\<lambda>c. andThen (expression_readOrThrow c) (\<lambda>(instructions, c).
              andThen (counted_readOrThrow U32_readOrThrow c) (\<lambda>(funcidxs, c).
                Inr (Element4 instructions funcidxs, c))))
     (ElementSegment_of flag) (\<lambda>v. tl (ElementSegment_bytes v))"
  unfolding decodes_def ElementSegment_of_def
  by (auto simp: andThen_Inr_iff reads_def u8_bytes_def dest!: element_dests)

lemma Element5_decodes:
  "flag = 5 \<Longrightarrow>
   decodes (\<lambda>c. andThen (readUint8OrThrow c) (\<lambda>(reftype, c).
              andThen (counted_readOrThrow U32_readOrThrow c) (\<lambda>(funcidxs, c).
                Inr (Element5 reftype funcidxs, c))))
     (ElementSegment_of flag) (\<lambda>v. tl (ElementSegment_bytes v))"
  unfolding decodes_def ElementSegment_of_def
  by (auto simp: andThen_Inr_iff reads_def u8_bytes_def dest!: element_dests)

lemma Element6_decodes:
  "flag = 6 \<Longrightarrow>
   decodes (\<lambda>c. andThen (U32_readOrThrow c) (\<lambda>(tableidx, c).
              andThen (expression_readOrThrow c) (\<lambda>(instructions, c).
                andThen (readUint8OrThrow c) (\<lambda>(reftype, c).
                  andThen (counted_readOrThrow U32_readOrThrow c) (\<lambda>(funcidxs, c).
                    Inr (Element6 tableidx instructions reftype funcidxs, c))))))
     (ElementSegment_of flag) (\<lambda>v. tl (ElementSegment_bytes v))"
  unfolding decodes_def ElementSegment_of_def
  by (auto simp: andThen_Inr_iff reads_def u8_bytes_def dest!: element_dests)

lemma Element7_decodes:
  "flag = 7 \<Longrightarrow>
   decodes (\<lambda>c. andThen (readUint8OrThrow c) (\<lambda>(reftype, c).
              andThen (counted_readOrThrow U32_readOrThrow c) (\<lambda>(funcidxs, c).
                Inr (Element7 reftype funcidxs, c))))
     (ElementSegment_of flag) (\<lambda>v. tl (ElementSegment_bytes v))"
  unfolding decodes_def ElementSegment_of_def
  by (auto simp: andThen_Inr_iff reads_def u8_bytes_def dest!: element_dests)

lemma ElementSegment_decodes:
  "decodes ElementSegment_readOrThrow ElementSegment_ok ElementSegment_bytes"
proof -
  have "decodes ElementSegment_readOrThrow ElementSegment_ok
      (\<lambda>v. u8_bytes (ElementSegment_flag v) @ tl (ElementSegment_bytes v))"
    unfolding ElementSegment_readOrThrow_def
    by (rule decodes_bind[OF u8_decodes], fold ElementSegment_of_def)
       (intro decodes_if decodes_throw;
        erule Element0_decodes Element1_decodes Element2_decodes Element3_decodes
          Element4_decodes Element5_decodes Element6_decodes Element7_decodes)
  then show ?thesis
  proof (rule decodes_weaken)
    fix v
    show "ElementSegment_ok v \<and>
        u8_bytes (ElementSegment_flag v) @ tl (ElementSegment_bytes v) = ElementSegment_bytes v"
      if "ElementSegment_ok v"
      using that by (cases v) (simp_all add: u8_bytes_def)
  qed
qed

definition DataSegment_flag :: "DataSegment \<Rightarrow> byte" where
  "DataSegment_flag v = hd (DataSegment_bytes v)"

definition DataSegment_of :: "byte \<Rightarrow> DataSegment \<Rightarrow> bool" where
  "DataSegment_of flag v \<longleftrightarrow> DataSegment_ok v \<and> DataSegment_flag v = flag"

lemma Data0_decodes:
  "flag = 0 \<Longrightarrow>
   decodes (\<lambda>c. andThen (expression_readOrThrow c) (\<lambda>(instructions, c).
              andThen (bytes_readOrThrow c) (\<lambda>(data, c). Inr (Data0 instructions data, c))))
     (DataSegment_of flag) (\<lambda>v. tl (DataSegment_bytes v))"
  unfolding decodes_def DataSegment_of_def DataSegment_flag_def
  by (auto simp: andThen_Inr_iff reads_def u8_bytes_def dest!: element_dests)

lemma Data1_decodes:
  "flag = 1 \<Longrightarrow>
   decodes (\<lambda>c. andThen (bytes_readOrThrow c) (\<lambda>(data, c). Inr (Data1 data, c)))
     (DataSegment_of flag) (\<lambda>v. tl (DataSegment_bytes v))"
  unfolding decodes_def DataSegment_of_def DataSegment_flag_def
  by (auto simp: andThen_Inr_iff reads_def u8_bytes_def dest!: element_dests)

lemma Data2_decodes:
  "flag = 2 \<Longrightarrow>
   decodes (\<lambda>c. andThen (U32_readOrThrow c) (\<lambda>(memidx, c).
              andThen (expression_readOrThrow c) (\<lambda>(instructions, c).
                andThen (bytes_readOrThrow c) (\<lambda>(data, c).
                  Inr (Data2 memidx instructions data, c)))))
     (DataSegment_of flag) (\<lambda>v. tl (DataSegment_bytes v))"
  unfolding decodes_def DataSegment_of_def DataSegment_flag_def
  by (auto simp: andThen_Inr_iff reads_def u8_bytes_def dest!: element_dests)

lemma DataSegment_decodes: "decodes DataSegment_readOrThrow DataSegment_ok DataSegment_bytes"
proof -
  have "decodes DataSegment_readOrThrow DataSegment_ok
      (\<lambda>v. u8_bytes (DataSegment_flag v) @ tl (DataSegment_bytes v))"
    unfolding DataSegment_readOrThrow_def
    by (rule decodes_bind[OF u8_decodes], fold DataSegment_of_def)
       (intro decodes_if decodes_throw; erule Data0_decodes Data1_decodes Data2_decodes)
  then show ?thesis
  proof (rule decodes_weaken)
    fix v
    show "DataSegment_ok v \<and>
        u8_bytes (DataSegment_flag v) @ tl (DataSegment_bytes v) = DataSegment_bytes v"
      if "DataSegment_ok v"
      using that by (cases v) (simp_all add: u8_bytes_def DataSegment_flag_def)
  qed
qed

subsection \<open>Payloads with a size in front\<close>

lemma uleb_range: "0 \<le> v \<Longrightarrow> v < 2 ^ (7 * length (uleb v))"
  using uleb_props[of v] leb_value_bounds[of "uleb v"] by simp

lemma uleb_length_mono: "0 \<le> a \<Longrightarrow> a \<le> b \<Longrightarrow> length (uleb a) \<le> length (uleb b)"
proof -
  assume a: "0 \<le> a" "a \<le> b"
  then have b: "0 \<le> b" by simp
  have "uleb b \<noteq> []" using uleb_props[OF b] by simp
  then have "1 \<le> length (uleb b)" by (cases "uleb b") simp_all
  moreover have "a < 2 ^ (7 * length (uleb b))" using uleb_range[OF b] a by simp
  ultimately show ?thesis using a by (intro uleb_length) simp_all
qed

lemma bytes_reads:
  "int (length x) < 2 ^ 32 \<Longrightarrow> reads bytes_readOrThrow (sized_bytes x) x"
  unfolding reads_def bytes_readOrThrow_def sized_bytes_def
  by (simp add: U32_read_uleb)

lemma sized_reencode:
  assumes r: "bytes_readOrThrow c = Inr (data, c')" and le: "length x \<le> length data"
  shows "reads bytes_readOrThrow (sized_bytes x) x \<and>
         length (sized_bytes x) + length (after c') \<le> length (after c)"
proof -
  from r obtain n c1 where n: "U32_readOrThrow c = Inr (n, c1)"
    and d: "readOrThrow c1 (nat n) = Inr (data, c')"
    by (auto simp: bytes_readOrThrow_def andThen_Inr_iff)
  from decodesD[OF U32_decodes n] have u: "u32_ok n"
    "length (uleb n) + length (after c1) \<le> length (after c)" by simp_all
  from d have v: "length data = nat n" "length data + length (after c') = length (after c1)"
    by (auto simp: readOrThrow_def remaining_def split: if_splits)
  have n': "n = int (length data)" using v(1) u(1) by (simp add: u32_ok_def)
  have "int (length x) < 2 ^ 32" using le u(1) n' by (simp add: u32_ok_def)
  then have "reads bytes_readOrThrow (sized_bytes x) x" by (rule bytes_reads)
  moreover have "length (uleb (int (length x))) \<le> length (uleb n)"
    unfolding n' using le by (intro uleb_length_mono) simp_all
  ultimately show ?thesis using u(2) v(2) le by (simp add: sized_bytes_def)
qed

lemma Cursor_simps [simp]: "before (Cursor bs) = []" "after (Cursor bs) = bs"
  by (simp_all add: Cursor_def)

lemma FunctionBody_decodes:
  "decodes FunctionBody_readOrThrow FunctionBody_ok FunctionBody_bytes"
proof (rule decodesI)
  fix c v c'
  assume "FunctionBody_readOrThrow c = Inr (v, c')"
  then obtain data locals s1 instructions s2 where
    d: "bytes_readOrThrow c = Inr (data, c')"
    and l: "counted_readOrThrow Local_readOrThrow (Cursor data) = Inr (locals, s1)"
    and i: "instructions_readOrThrow s1 = Inr (instructions, s2)"
    and v: "v = FunctionBody locals instructions"
    by (auto simp: FunctionBody_readOrThrow_def Locals_readOrThrow_def andThen_Inr_iff)
  note L = decodesD[OF counted_decodes[OF Local_decodes] l]
  note I = instructions_decodes[OF i]
  have le: "length (FunctionBody_payload v) \<le> length data"
    using L I by (simp add: v)
  note S = sized_reencode[OF d le]
  have sub: "andThen (Locals_readOrThrow (Cursor (FunctionBody_payload v))) (\<lambda>(locals, subcursor).
         andThen (instructions_readOrThrow subcursor) (\<lambda>(instructions, subcursor).
           Inr (FunctionBody locals instructions, k))) = Inr (v, k)" for k
    using L I unfolding v Locals_readOrThrow_def reads_def reads_all_def Cursor_def
    by simp
  have "reads FunctionBody_readOrThrow (FunctionBody_bytes v) v"
    unfolding reads_def FunctionBody_readOrThrow_def FunctionBody_bytes_def
  proof (intro allI)
    fix p rest
    have b: "bytes_readOrThrow \<lparr>before = p, after = sized_bytes (FunctionBody_payload v) @ rest\<rparr> =
        Inr (FunctionBody_payload v,
             \<lparr>before = p @ sized_bytes (FunctionBody_payload v), after = rest\<rparr>)"
      using S by (simp add: reads_def)
    show "andThen (bytes_readOrThrow
            \<lparr>before = p, after = sized_bytes (FunctionBody_payload v) @ rest\<rparr>) (\<lambda>(data, c).
          andThen (Locals_readOrThrow (Cursor data)) (\<lambda>(locals, subcursor).
            andThen (instructions_readOrThrow subcursor) (\<lambda>(instructions, subcursor).
              Inr (FunctionBody locals instructions, c)))) =
        Inr (v, \<lparr>before = p @ sized_bytes (FunctionBody_payload v), after = rest\<rparr>)"
      unfolding b by (simp only: andThen_simps prod.case sub)
  qed
  then show "FunctionBody_ok v \<and> reads FunctionBody_readOrThrow (FunctionBody_bytes v) v \<and>
      length (FunctionBody_bytes v) + length (after c') \<le> length (after c)"
    using L I S by (simp add: v FunctionBody_bytes_def)
qed

subsection \<open>Sections\<close>

definition Section_of :: "byte \<Rightarrow> Section \<Rightarrow> bool" where
  "Section_of kind s \<longleftrightarrow> Section_ok s \<and> Section_kind s = kind"

lemma TypeSection_decodes: "decodes TypeSection_readOrThrow (Section_of 0x01) Section_bytes"
  unfolding decodes_def TypeSection_readOrThrow_def Section_of_def
  by (auto simp: andThen_Inr_iff reads_def dest!: decodesD[OF counted_decodes[OF TypeDescriptor_decodes]])

lemma ImportSection_decodes: "decodes ImportSection_readOrThrow (Section_of 0x02) Section_bytes"
  unfolding decodes_def ImportSection_readOrThrow_def Section_of_def
  by (auto simp: andThen_Inr_iff reads_def
      dest!: decodesD[OF counted_decodes[OF ImportDescriptor_decodes]])

lemma FunctionSection_decodes: "decodes FunctionSection_readOrThrow (Section_of 0x03) Section_bytes"
  unfolding decodes_def FunctionSection_readOrThrow_def Section_of_def
  by (auto simp: andThen_Inr_iff reads_def dest!: decodesD[OF counted_decodes[OF U32_decodes]])

lemma TableSection_decodes: "decodes TableSection_readOrThrow (Section_of 0x04) Section_bytes"
  unfolding decodes_def TableSection_readOrThrow_def Section_of_def
  by (auto simp: andThen_Inr_iff reads_def
      dest!: decodesD[OF counted_decodes[OF TableDescriptor_decodes]])

lemma MemorySection_decodes: "decodes MemorySection_readOrThrow (Section_of 0x05) Section_bytes"
  unfolding decodes_def MemorySection_readOrThrow_def Section_of_def
  by (auto simp: andThen_Inr_iff reads_def
      dest!: decodesD[OF counted_decodes[OF MemoryDescriptor_decodes]])

lemma GlobalSection_decodes: "decodes GlobalSection_readOrThrow (Section_of 0x06) Section_bytes"
  unfolding decodes_def GlobalSection_readOrThrow_def Section_of_def
  by (auto simp: andThen_Inr_iff reads_def
      dest!: decodesD[OF counted_decodes[OF GlobalDescriptor_decodes]])

lemma ExportSection_decodes: "decodes ExportSection_readOrThrow (Section_of 0x07) Section_bytes"
  unfolding decodes_def ExportSection_readOrThrow_def Section_of_def
  by (auto simp: andThen_Inr_iff reads_def
      dest!: decodesD[OF counted_decodes[OF ExportDescriptor_decodes]])

lemma StartSection_decodes: "decodes StartSection_readOrThrow (Section_of 0x08) Section_bytes"
  unfolding decodes_def StartSection_readOrThrow_def Section_of_def
  by (auto simp: andThen_Inr_iff reads_def dest!: decodesD[OF U32_decodes])

lemma ElementSection_decodes: "decodes ElementSection_readOrThrow (Section_of 0x09) Section_bytes"
  unfolding decodes_def ElementSection_readOrThrow_def Section_of_def
  by (auto simp: andThen_Inr_iff reads_def
      dest!: decodesD[OF counted_decodes[OF ElementSegment_decodes]])

lemma CodeSection_decodes: "decodes CodeSection_readOrThrow (Section_of 0x0A) Section_bytes"
  unfolding decodes_def CodeSection_readOrThrow_def Section_of_def
  by (auto simp: andThen_Inr_iff reads_def
      dest!: decodesD[OF counted_decodes[OF FunctionBody_decodes]])

lemma DataSection_decodes: "decodes DataSection_readOrThrow (Section_of 0x0b) Section_bytes"
  unfolding decodes_def DataSection_readOrThrow_def Section_of_def
  by (auto simp: andThen_Inr_iff reads_def
      dest!: decodesD[OF counted_decodes[OF DataSegment_decodes]])

lemma DataCountSection_decodes: "decodes DataCountSection_readOrThrow (Section_of 0x0c) Section_bytes"
  unfolding decodes_def DataCountSection_readOrThrow_def Section_of_def
  by (auto simp: andThen_Inr_iff reads_def dest!: decodesD[OF U32_decodes])

lemma TagSection_decodes: "decodes TagSection_readOrThrow (Section_of 0x0d) Section_bytes"
  unfolding decodes_def TagSection_readOrThrow_def Section_of_def
  by (auto simp: andThen_Inr_iff reads_def dest!: decodesD[OF counted_decodes[OF tag_decodes]])

text \<open>A payload is read on a cursor of its own, to its end.\<close>

definition redecodes :: "(byte list \<Rightarrow> error + 'a) \<Rightarrow> ('a \<Rightarrow> bool) \<Rightarrow> ('a \<Rightarrow> byte list) \<Rightarrow> bool" where
  "redecodes r ok enc \<longleftrightarrow>
     (\<forall>data v. r data = Inr v \<longrightarrow> ok v \<and> r (enc v) = Inr v \<and> length (enc v) \<le> length data)"

lemma redecodesD:
  "redecodes r ok enc \<Longrightarrow> r data = Inr v \<Longrightarrow>
   ok v \<and> r (enc v) = Inr v \<and> length (enc v) \<le> length data"
  unfolding redecodes_def by blast

lemma redecodes_readFromBytes:
  assumes "decodes r ok enc"
  shows "redecodes (readFromBytesOrThrow r) ok enc"
  unfolding redecodes_def
proof (intro allI impI)
  fix data v
  assume "readFromBytesOrThrow r data = Inr v"
  then obtain c1 where r: "r (Cursor data) = Inr (v, c1)"
    by (auto simp: readFromBytesOrThrow_def andThen_Inr_iff split: if_splits)
  from decodesD[OF assms r] have a: "ok v" "reads r (enc v) v"
    "length (enc v) + length (after c1) \<le> length data" by simp_all
  have "r (Cursor (enc v)) = Inr (v, \<lparr>before = enc v, after = []\<rparr>)"
    using a(2)[unfolded reads_def, rule_format, of "[]" "[]"] by (simp add: Cursor_def)
  then have "readFromBytesOrThrow r (enc v) = Inr v"
    by (simp add: readFromBytesOrThrow_def remaining_def)
  then show "ok v \<and> readFromBytesOrThrow r (enc v) = Inr v \<and> length (enc v) \<le> length data"
    using a by simp
qed

lemma redecodes_if:
  "(b \<Longrightarrow> redecodes r ok enc) \<Longrightarrow> (\<not> b \<Longrightarrow> redecodes s ok enc) \<Longrightarrow>
   redecodes (\<lambda>data. if b then r data else s data) ok enc"
  by (cases b) simp_all

lemma redecodes_kind:
  "kind = k \<Longrightarrow> redecodes r (Section_of k) enc \<Longrightarrow> redecodes r (Section_of kind) enc"
  by simp

lemma CustomSection_redecodes:
  "redecodes (readFromBytesOrThrow CustomSection_readOrThrow) (Section_of 0) Section_bytes"
  unfolding redecodes_def
proof (intro allI impI)
  fix data v
  assume "readFromBytesOrThrow CustomSection_readOrThrow data = Inr v"
  then obtain name c1 payload c2 where n: "bytes_readOrThrow (Cursor data) = Inr (name, c1)"
    and d: "readOrThrow c1 (remaining c1) = Inr (payload, c2)"
    and v: "v = CustomSection name payload"
    by (auto simp: readFromBytesOrThrow_def CustomSection_readOrThrow_def andThen_Inr_iff
        split: if_splits)
  from decodesD[OF bytes_decodes n] have a: "reads bytes_readOrThrow (sized_bytes name) name"
    "length (sized_bytes name) + length (after c1) \<le> length data" by simp_all
  from d have p: "payload = after c1" by (auto simp: readOrThrow_def remaining_def split: if_splits)
  have "bytes_readOrThrow (Cursor (sized_bytes name @ payload)) =
      Inr (name, \<lparr>before = sized_bytes name, after = payload\<rparr>)"
    using a(1)[unfolded reads_def, rule_format, of "[]" payload] by (simp add: Cursor_def)
  then have "readFromBytesOrThrow CustomSection_readOrThrow (Section_bytes v) = Inr v"
    by (simp add: v readFromBytesOrThrow_def CustomSection_readOrThrow_def readOrThrow_def
        remaining_def)
  then show "Section_of 0 v \<and> readFromBytesOrThrow CustomSection_readOrThrow (Section_bytes v) = Inr v \<and>
      length (Section_bytes v) \<le> length data"
    using a(2) by (simp add: v p Section_of_def)
qed

lemma UnknownSection_redecodes:
  "redecodes (\<lambda>data. Inr (UnknownSection kind data)) (Section_of kind) Section_bytes"
  by (simp add: redecodes_def Section_of_def)

lemma Section_redecodes:
  "redecodes (Section_readFromBytesOrThrow kind) (Section_of kind) Section_bytes"
  unfolding Section_readFromBytesOrThrow_def
  by (intro redecodes_if UnknownSection_redecodes;
      erule redecodes_kind;
      intro CustomSection_redecodes redecodes_readFromBytes
        TypeSection_decodes ImportSection_decodes FunctionSection_decodes TableSection_decodes
        MemorySection_decodes GlobalSection_decodes ExportSection_decodes StartSection_decodes
        ElementSection_decodes CodeSection_decodes DataSection_decodes DataCountSection_decodes
        TagSection_decodes)

subsection \<open>The body, the head and the module\<close>

lemma frame_decodes: "decodes frame_readOrThrow Section_ok frame_bytes"
proof (rule decodesI)
  fix c v c'
  assume "frame_readOrThrow c = Inr (v, c')"
  then obtain kind c1 data where k: "readUint8OrThrow c = Inr (kind, c1)"
    and d: "bytes_readOrThrow c1 = Inr (data, c')"
    and s: "Section_readFromBytesOrThrow kind data = Inr v"
    by (auto simp: frame_readOrThrow_def andThen_Inr_iff)
  have l1: "Suc (length (after c1)) \<le> length (after c)"
    using decodesD[OF u8_decodes k] by (simp add: u8_bytes_def)
  from redecodesD[OF Section_redecodes s] have a: "Section_ok v" "Section_kind v = kind"
    "Section_readFromBytesOrThrow kind (Section_bytes v) = Inr v"
    "length (Section_bytes v) \<le> length data"
    by (simp_all add: Section_of_def)
  note S = sized_reencode[OF d a(4)]
  have "reads frame_readOrThrow (frame_bytes v) v"
    using S a(2,3) unfolding reads_def frame_readOrThrow_def frame_bytes_def by simp
  then show "Section_ok v \<and> reads frame_readOrThrow (frame_bytes v) v \<and>
      length (frame_bytes v) + length (after c') \<le> length (after c)"
    using a(1) S l1 by (simp add: frame_bytes_def)
qed

lemma frame_bytes_nonempty [simp]: "frame_bytes s \<noteq> []"
  by (simp add: frame_bytes_def)

lemma Body_sections_decodes:
  "Body_sections_readOrThrow c = Inr (v, c') \<Longrightarrow>
   after c' = [] \<and> list_all Section_ok v \<and>
   reads_all Body_sections_readOrThrow (concat (map frame_bytes v)) v \<and>
   length (concat (map frame_bytes v)) \<le> length (after c)"
proof (induction c arbitrary: v c' rule: Body_sections_readOrThrow.induct)
  case (1 c)
  show ?case
  proof (cases "remaining c > 0")
    case False
    with "1.prems" have v: "v = []" "c' = c"
      by (subst (asm) Body_sections_readOrThrow.simps, simp)+
    have "Body_sections_readOrThrow \<lparr>before = p, after = []\<rparr> = Inr ([], \<lparr>before = p, after = []\<rparr>)"
      for p
      by (subst Body_sections_readOrThrow.simps) (simp add: remaining_def)
    then show ?thesis using False by (simp add: v reads_all_def remaining_def)
  next
    case True
    with "1.prems" obtain s c1 ss where s: "frame_readOrThrow c = Inr (s, c1)"
      and rr: "Body_sections_readOrThrow c1 = Inr (ss, c')" and v: "v = s # ss"
      by (subst (asm) Body_sections_readOrThrow.simps) (auto simp: andThen_Inr_iff)
    note F = decodesD[OF frame_decodes s]
    note IH = "1.IH"[OF True s refl rr]
    have "Body_sections_readOrThrow
          \<lparr>before = p, after = frame_bytes s @ concat (map frame_bytes ss)\<rparr> =
        Inr (s # ss, \<lparr>before = p @ frame_bytes s @ concat (map frame_bytes ss), after = []\<rparr>)"
      for p
      using F IH by (subst Body_sections_readOrThrow.simps) (simp add: reads_def reads_all_def remaining_def)
    then show ?thesis using F IH by (simp add: v reads_all_def)
  qed
qed

lemma le32_magic: "le32 1836278016 = [0x00, 0x61, 0x73, 0x6D]" "le32 1 = [0x01, 0x00, 0x00, 0x00]"
  by code_simp+

lemma Head_read_bytes:
  "Head_readOrThrow \<lparr>before = p, after = Head_bytes (Head 1) @ rest\<rparr> =
     Inr (Head 1, \<lparr>before = p @ Head_bytes (Head 1), after = rest\<rparr>)"
  by (simp add: Head_readOrThrow_def Head_bytes_def le32_magic readUint32OrThrow_def)

lemma Head_read_Inr:
  assumes "Head_readOrThrow c = Inr (h, c')"
  shows "h = Head 1 \<and> 8 + length (after c') = length (after c)"
proof -
  from assms obtain magic c1 where m: "readUint32OrThrow c = Inr (magic, c1)"
    and v: "readUint32OrThrow c1 = Inr (1, c')" and h: "h = Head 1"
    by (auto simp: Head_readOrThrow_def andThen_Inr_iff split: if_splits)
  have "4 + length (after c1) = length (after c)"
    using m by (auto simp: readUint32OrThrow_def split: list.splits)
  moreover have "4 + length (after c') = length (after c1)"
    using v by (auto simp: readUint32OrThrow_def split: list.splits)
  ultimately show ?thesis using h by simp
qed

lemma Module_decodes:
  assumes "Module_readOrThrow c = Inr (m, c')"
  shows "after c' = [] \<and> Module_ok m \<and> reads_all Module_readOrThrow (Module_bytes m) m \<and>
     length (Module_bytes m) \<le> length (after c)"
proof -
  from assms obtain h c1 ss where h: "Head_readOrThrow c = Inr (h, c1)"
    and b: "Body_sections_readOrThrow c1 = Inr (ss, c')" and m: "m = Module h (Body ss)"
    by (auto simp: Module_readOrThrow_def Body_readOrThrow_def andThen_Inr_iff)
  note H = Head_read_Inr[OF h]
  note B = Body_sections_decodes[OF b]
  have hb: "length (Head_bytes (Head 1)) = 8" by (simp add: Head_bytes_def le32_def)
  have "Module_readOrThrow \<lparr>before = p, after = Head_bytes (Head 1) @ concat (map frame_bytes ss)\<rparr> =
      Inr (Module (Head 1) (Body ss),
           \<lparr>before = p @ Head_bytes (Head 1) @ concat (map frame_bytes ss), after = []\<rparr>)" for p
    using B by (simp add: Module_readOrThrow_def Body_readOrThrow_def Head_read_bytes reads_all_def)
  then show ?thesis
    using H B hb by (simp add: m reads_all_def Module_ok_def Body_ok_def Module_bytes_def Body_bytes_def)
qed

subsection \<open>Frames of unknown kind\<close>

lemma Unknown_kind:
  "0x0d < kind \<Longrightarrow> Section_readFromBytesOrThrow kind data = Inr (UnknownSection kind data)"
  by (auto simp: Section_readFromBytesOrThrow_def)

lemma bytes_read_exact:
  assumes ok: "leb_ok 0 sz" and n: "leb_value sz = int (length data)" and le: "leb_value sz \<le> 2 ^ 32 - 1"
  shows "bytes_readOrThrow \<lparr>before = p, after = sz @ data @ rest\<rparr> =
     Inr (data, \<lparr>before = p @ sz @ data, after = rest\<rparr>)"
  using U32_read_reads[OF ok le, of p "data @ rest"]
  by (simp add: bytes_readOrThrow_def n)

lemma bytes_read_Inr:
  assumes "bytes_readOrThrow c = Inr (data, c')"
  obtains sz where "leb_ok 0 sz" "leb_value sz = int (length data)" "leb_value sz \<le> 2 ^ 32 - 1"
    "after c = sz @ data @ after c'"
proof -
  from assms obtain n c1 where u: "U32_readOrThrow c = Inr (n, c1)"
    and r: "readOrThrow c1 (nat n) = Inr (data, c')"
    by (auto simp: bytes_readOrThrow_def andThen_Inr_iff)
  from u obtain sz where sz: "leb_ok 0 sz" "after c = sz @ after c1" "n = leb_value sz" "n \<le> 2 ^ 32 - 1"
    by (rule U32_read_Inr)
  have nn: "0 \<le> n" using leb_value_bounds[of sz] sz(3) by simp
  from r have d: "length data = nat n" "after c1 = data @ after c'"
    by (auto simp: readOrThrow_def remaining_def split: if_splits)
  show ?thesis
    using that[OF sz(1)] sz(2,3,4) d nn by simp
qed

section \<open>Claims about the LEB128 codec\<close>




text \<open>
  C4. For every \<open>u\<close> from \<open>0\<close> to \<open>2 ^ 32 - 1\<close>, \<^verbatim>\<open>U32.writeOrThrow\<close> writes between one and five
  bytes \<open>bs\<close> at the cursor (whenever the cursor has room for them), and
  \<^verbatim>\<open>U32.readOrThrow\<close> on a cursor that stands in front of these bytes returns \<open>u\<close> and
  stops behind them.
\<close>

theorem U32_write_then_read:
  "0 \<le> u \<Longrightarrow> u \<le> 2 ^ 32 - 1 \<Longrightarrow>
   \<exists>bs. 1 \<le> length bs \<and> length bs \<le> 5 \<and>
     (\<forall>c. length bs \<le> remaining c \<longrightarrow>
        U32_writeOrThrow u c = Inr \<lparr>before = before c @ bs, after = drop (length bs) (after c)\<rparr>) \<and>
     (\<forall>p rest. U32_readOrThrow \<lparr>before = p, after = bs @ rest\<rparr> =
        Inr (u, \<lparr>before = p @ bs, after = rest\<rparr>))"
proof -
  assume u: "0 \<le> u" "u \<le> 2 ^ 32 - 1"
  have len: "length (uleb u) \<le> 5" using uleb_length[of u 5] u by simp
  have ne: "1 \<le> length (uleb u)" using uleb_props[OF u(1)] by (cases "uleb u") auto
  have wr: "\<forall>c. length (uleb u) \<le> remaining c \<longrightarrow>
      U32_writeOrThrow u c = Inr \<lparr>before = before c @ uleb u, after = drop (length (uleb u)) (after c)\<rparr>"
    by (simp add: U32_writeOrThrow_def unsigned_write_loop_uleb[OF u(1)] writeOrThrow_def)
  have rd: "\<forall>p rest. U32_readOrThrow \<lparr>before = p, after = uleb u @ rest\<rparr> =
      Inr (u, \<lparr>before = p @ uleb u, after = rest\<rparr>)"
    using U32_read_uleb[OF u] by simp
  show ?thesis using len ne wr rd by blast
qed

theorem U32_write_then_read_witness:
  "\<exists>bs. 1 \<le> length bs \<and> length bs \<le> 5 \<and>
     (\<forall>c. length bs \<le> remaining c \<longrightarrow>
        U32_writeOrThrow 624485 c = Inr \<lparr>before = before c @ bs, after = drop (length bs) (after c)\<rparr>) \<and>
     (\<forall>p rest. U32_readOrThrow \<lparr>before = p, after = bs @ rest\<rparr> =
        Inr (624485, \<lparr>before = p @ bs, after = rest\<rparr>))"
  using U32_write_then_read[of 624485] by simp

text \<open>
  C5. The signed encoder writes \<open>- 1\<close> as \<open>7F\<close>, \<open>- 128\<close> as \<open>80 7F\<close>, \<open>63\<close> as \<open>3F\<close> and
  \<open>64\<close> as \<open>C0 00\<close>, and the signed reader returns the value from each of these.
\<close>

theorem I32_sign_scenarios:
  "I32_writeOrThrow (- 1) (Cursor [0]) = Inr \<lparr>before = [0x7F], after = []\<rparr> \<and>
   I32_writeOrThrow (- 128) (Cursor [0, 0]) = Inr \<lparr>before = [0x80, 0x7F], after = []\<rparr> \<and>
   I32_writeOrThrow 63 (Cursor [0]) = Inr \<lparr>before = [0x3F], after = []\<rparr> \<and>
   I32_writeOrThrow 64 (Cursor [0, 0]) = Inr \<lparr>before = [0xC0, 0x00], after = []\<rparr> \<and>
   I32_sizeOrThrow (- 1) = 1 \<and> I32_sizeOrThrow (- 128) = 2 \<and>
   I32_sizeOrThrow 63 = 1 \<and> I32_sizeOrThrow 64 = 2 \<and>
   I32_readOrThrow (Cursor [0x7F]) = Inr (- 1, \<lparr>before = [0x7F], after = []\<rparr>) \<and>
   I32_readOrThrow (Cursor [0x80, 0x7F]) = Inr (- 128, \<lparr>before = [0x80, 0x7F], after = []\<rparr>) \<and>
   I32_readOrThrow (Cursor [0x3F]) = Inr (63, \<lparr>before = [0x3F], after = []\<rparr>) \<and>
   I32_readOrThrow (Cursor [0xC0, 0x00]) = Inr (64, \<lparr>before = [0xC0, 0x00], after = []\<rparr>)"
  by code_simp

text \<open>
  C9. The signed readers test the value only against the upper bound of their range. A run
  of bytes that ends with the sign bit (bit 6 of the last byte) set is read as a negative
  number and is accepted whatever its magnitude: \<^verbatim>\<open>I32\<close>, \<^verbatim>\<open>I33\<close> and \<^verbatim>\<open>I64\<close> return it;
  \<open>80 80 80 80 40\<close> is read by \<^verbatim>\<open>I32\<close> as \<open>- (2 ^ 34)\<close>, below \<open>- (2 ^ 31)\<close>.
\<close>

theorem signed_read_no_lower_bound:
  "leb_ok 0 bs \<Longrightarrow> last bs AND 0x40 \<noteq> 0 \<Longrightarrow>
     sign_extend bs < 0 \<and>
     I32_readOrThrow \<lparr>before = p, after = bs @ rest\<rparr> =
       Inr (Number (sign_extend bs), \<lparr>before = p @ bs, after = rest\<rparr>) \<and>
     I33_readOrThrow \<lparr>before = p, after = bs @ rest\<rparr> =
       Inr (Number (sign_extend bs), \<lparr>before = p @ bs, after = rest\<rparr>) \<and>
     I64_readOrThrow \<lparr>before = p, after = bs @ rest\<rparr> =
       Inr (sign_extend bs, \<lparr>before = p @ bs, after = rest\<rparr>)"
proof -
  assume ok: "leb_ok 0 bs" and neg: "last bs AND 0x40 \<noteq> 0"
  have lt: "sign_extend bs < 0" using neg by (rule sign_extend_negative)
  then have "sign_extend bs \<le> 2 ^ 31 - 1" "sign_extend bs \<le> 2 ^ 32 - 1" "sign_extend bs \<le> 2 ^ 63 - 1"
    by simp_all
  then show ?thesis
    using lt I32_read_reads[OF ok] I33_read_reads[OF ok] I64_read_reads[OF ok] by simp
qed

theorem signed_read_no_lower_bound_witness:
  "I32_readOrThrow \<lparr>before = [], after = [0x80, 0x80, 0x80, 0x80, 0x40] @ []\<rparr> =
     Inr (- (2 ^ 34), \<lparr>before = [] @ [0x80, 0x80, 0x80, 0x80, 0x40], after = []\<rparr>) \<and>
   - (2 ^ 34) < (- (2 ^ 31) :: int) \<and>
   I33_readOrThrow \<lparr>before = [], after = [0x80, 0x80, 0x80, 0x80, 0x40] @ []\<rparr> =
     Inr (- (2 ^ 34), \<lparr>before = [] @ [0x80, 0x80, 0x80, 0x80, 0x40], after = []\<rparr>) \<and>
   I64_readOrThrow \<lparr>before = [], after = [0x80, 0x80, 0x80, 0x80, 0x40] @ []\<rparr> =
     Inr (- (2 ^ 34), \<lparr>before = [] @ [0x80, 0x80, 0x80, 0x80, 0x40], after = []\<rparr>)"
proof -
  have ok: "leb_ok 0 [0x80, 0x80, 0x80, 0x80, 0x40]" by (simp add: leb_ok_def)
  have neg: "last [0x80, 0x80, 0x80, 0x80, 0x40 :: byte] AND 0x40 \<noteq> 0" by simp
  have se: "sign_extend [0x80, 0x80, 0x80, 0x80, 0x40] = - (2 ^ 34)"
    by (simp add: sign_extend_def)
  have num: "Number (- 17179869184) = - 17179869184" by (rule Number_exact) simp
  show ?thesis
    using signed_read_no_lower_bound[OF ok neg, of "[]" "[]"] by (simp add: se num)
qed

text \<open>
  C10. For a nonnegative value the loop of \<^verbatim>\<open>U32.sizeOrThrow\<close> returns, and \<^verbatim>\<open>writeOrThrow\<close>
  writes as many bytes as the size says when the cursor has room for them: at least one
  byte, the last with the continuation bit clear and every earlier one with the bit set.
  The working value strictly decreases under the shift while it is positive. For a
  negative value \<^verbatim>\<open>sizeOrThrow\<close> does not return, and \<^verbatim>\<open>writeOrThrow\<close> never leaves its
  loop by the loop's condition: it writes until the cursor is full and ends with the
  cursor's error.
\<close>

theorem U32_loops_terminate:
  "(0 \<le> v \<longrightarrow>
      (\<exists>bs. bs \<noteq> [] \<and> U32_sizeOrThrow v = Some (length bs) \<and>
         (\<forall>c. length bs \<le> remaining c \<longrightarrow>
            U32_writeOrThrow v c = Inr \<lparr>before = before c @ bs, after = drop (length bs) (after c)\<rparr>) \<and>
         last bs AND 0x80 = 0 \<and> (\<forall>b\<in>set (butlast bs). b AND 0x80 \<noteq> 0))) \<and>
   (0 < v \<longrightarrow> 0 \<le> drop_bit 7 v \<and> drop_bit 7 v < v) \<and>
   (v < 0 \<longrightarrow> U32_sizeOrThrow v = None \<and> (\<forall>c. U32_writeOrThrow v c = Inl CursorWriteOverflowError))"
proof (intro conjI impI)
  assume v: "0 \<le> v"
  have "uleb v \<noteq> []" "last (uleb v) AND 0x80 = 0" "\<forall>b\<in>set (butlast (uleb v)). b AND 0x80 \<noteq> 0"
    using uleb_props[OF v] by simp_all
  moreover have "U32_sizeOrThrow v = Some (length (uleb v))"
    using unsigned_size_loop_uleb[OF v, of 0] by (simp add: U32_sizeOrThrow_def)
  moreover have "\<forall>c. length (uleb v) \<le> remaining c \<longrightarrow>
      U32_writeOrThrow v c = Inr \<lparr>before = before c @ uleb v, after = drop (length (uleb v)) (after c)\<rparr>"
    by (simp add: U32_writeOrThrow_def unsigned_write_loop_uleb[OF v] writeOrThrow_def)
  ultimately show "\<exists>bs. bs \<noteq> [] \<and> U32_sizeOrThrow v = Some (length bs) \<and>
         (\<forall>c. length bs \<le> remaining c \<longrightarrow>
            U32_writeOrThrow v c = Inr \<lparr>before = before c @ bs, after = drop (length bs) (after c)\<rparr>) \<and>
         last bs AND 0x80 = 0 \<and> (\<forall>b\<in>set (butlast bs). b AND 0x80 \<noteq> 0)"
    by blast
next
  assume "0 < v"
  then show "0 \<le> drop_bit 7 v" by simp
next
  assume "0 < v"
  then show "drop_bit 7 v < v" by (simp add: drop_bit_eq_div)
next
  assume "v < 0"
  then show "U32_sizeOrThrow v = None"
    by (simp add: U32_sizeOrThrow_def unsigned_size_loop_negative)
next
  assume "v < 0"
  then show "\<forall>c. U32_writeOrThrow v c = Inl CursorWriteOverflowError"
    by (simp add: U32_writeOrThrow_def unsigned_write_loop_negative)
qed

theorem U32_loops_terminate_witness:
  "(\<exists>bs. bs \<noteq> [] \<and> U32_sizeOrThrow 0 = Some (length bs) \<and>
      (\<forall>c. length bs \<le> remaining c \<longrightarrow>
         U32_writeOrThrow 0 c = Inr \<lparr>before = before c @ bs, after = drop (length bs) (after c)\<rparr>) \<and>
      last bs AND 0x80 = 0 \<and> (\<forall>b\<in>set (butlast bs). b AND 0x80 \<noteq> 0)) \<and>
   (0 \<le> drop_bit 7 (300 :: int) \<and> drop_bit 7 (300 :: int) < 300) \<and>
   U32_sizeOrThrow (- 1) = None \<and>
   (\<forall>c. U32_writeOrThrow (- 1) c = Inl CursorWriteOverflowError)"
  using U32_loops_terminate[of 0] U32_loops_terminate[of 300] U32_loops_terminate[of "- 1"]
  by simp

section \<open>Claims about the module framing\<close>




text \<open>
  The assignment \<^verbatim>\<open>start.funcidx = v\<close> of the \<^verbatim>\<open>README\<close>, where \<^verbatim>\<open>start\<close> is the first
  section of the module whose \<^verbatim>\<open>kind\<close> is the one of \<^verbatim>\<open>StartSection\<close>.
\<close>

fun set_start_funcidx :: "int \<Rightarrow> Section list \<Rightarrow> Section list" where
  "set_start_funcidx v [] = []"
| "set_start_funcidx v (StartSection funcidx # rest) = StartSection v # rest"
| "set_start_funcidx v (s # rest) = s # set_start_funcidx v rest"

text \<open>
  C6. \<^verbatim>\<open>Module.readOrThrow\<close> on \<open>00 61 73 6D 01 00 00 00 08 01 03\<close> returns the module of
  version 1 whose body is the single section \<^verbatim>\<open>StartSection\<close> with \<^verbatim>\<open>funcidx\<close> 3. With
  \<^verbatim>\<open>funcidx\<close> set to 0 the module has size 11 and \<^verbatim>\<open>Module.writeOrThrow\<close> fills a buffer of
  11 bytes with \<open>00 61 73 6D 01 00 00 00 08 01 00\<close>.
\<close>

theorem start_section_rewrite:
  "Module_readOrThrow (Cursor [0x00, 0x61, 0x73, 0x6D, 0x01, 0x00, 0x00, 0x00, 0x08, 0x01, 0x03]) =
     Inr (Module (Head 1) (Body [StartSection 3]),
          \<lparr>before = [0x00, 0x61, 0x73, 0x6D, 0x01, 0x00, 0x00, 0x00, 0x08, 0x01, 0x03], after = []\<rparr>) \<and>
   set_start_funcidx 0 [StartSection 3] = [StartSection 0] \<and>
   Module_sizeOrThrow (Module (Head 1) (Body (set_start_funcidx 0 [StartSection 3]))) = Some 11 \<and>
   Module_writeOrThrow (Module (Head 1) (Body (set_start_funcidx 0 [StartSection 3])))
       (Cursor (replicate 11 0)) =
     Some (Inr \<lparr>before = [0x00, 0x61, 0x73, 0x6D, 0x01, 0x00, 0x00, 0x00, 0x08, 0x01, 0x00], after = []\<rparr>) \<and>
   writeToBytesOrThrow
       (Module_sizeOrThrow (Module (Head 1) (Body (set_start_funcidx 0 [StartSection 3]))))
       (Module_writeOrThrow (Module (Head 1) (Body (set_start_funcidx 0 [StartSection 3])))) =
     Some (Inr [0x00, 0x61, 0x73, 0x6D, 0x01, 0x00, 0x00, 0x00, 0x08, 0x01, 0x00])"
  by code_simp

section \<open>Sizes\<close>

text \<open>
  C3. For every module whose unsigned integer fields lie in their declared ranges
  (\<open>Module_ok\<close>), \<^verbatim>\<open>Module.sizeOrThrow()\<close> returns the number of bytes that
  \<^verbatim>\<open>Module.writeOrThrow\<close> writes: the write is, on every cursor, the cursor's write of one
  byte sequence \<open>Module_bytes m\<close>, the size is the length of that sequence, and writing into a
  buffer of \<^verbatim>\<open>sizeOrThrow()\<close> bytes fills it exactly with those bytes. The same holds for
  every section (each of the fifteen classes is a constructor of \<open>Section\<close>) and for
  \<^verbatim>\<open>Instruction\<close>; and what \<^verbatim>\<open>Body.writeOrThrow\<close> writes for a section is its kind, the
  \<^verbatim>\<open>LEB128.U32\<close> of the byte length of its payload, and the payload. Signed immediates need no
  hypothesis.
\<close>

theorem size_agrees_with_write:
  "(Module_ok m \<longrightarrow>
      Module_sizeOrThrow m = Some (length (Module_bytes m)) \<and>
      (\<forall>c. Module_writeOrThrow m c = Some (writeOrThrow c (Module_bytes m))) \<and>
      writeToBytesOrThrow (Module_sizeOrThrow m) (Module_writeOrThrow m) =
        Some (Inr (Module_bytes m))) \<and>
   (Section_ok s \<longrightarrow>
      Section_sizeOrThrow s = Some (length (Section_bytes s)) \<and>
      (\<forall>c. Section_writeOrThrow s c = Some (writeOrThrow c (Section_bytes s))) \<and>
      (\<forall>c. frame_writeOrThrow s c =
         Some (writeOrThrow c
                (Section_kind s # uleb (int (length (Section_bytes s))) @ Section_bytes s)))) \<and>
   (Instruction_ok i \<longrightarrow>
      Instruction_sizeOrThrow i = Some (length (Instruction_bytes i)) \<and>
      (\<forall>c. Instruction_writeOrThrow i c = writeOrThrow c (Instruction_bytes i)))"
proof (intro conjI impI allI)
  assume ok: "Module_ok m"
  show sz: "Module_sizeOrThrow m = Some (length (Module_bytes m))"
    by (rule encodesP_size[OF Module_encodes ok])
  show wr: "Module_writeOrThrow m c = Some (writeOrThrow c (Module_bytes m))" for c
    by (simp add: encodesP_write[OF Module_encodes ok])
  have "Module_writeOrThrow m = (\<lambda>c. Some (writeOrThrow c (Module_bytes m)))"
    by (rule encodesP_write[OF Module_encodes ok])
  then show "writeToBytesOrThrow (Module_sizeOrThrow m) (Module_writeOrThrow m) =
      Some (Inr (Module_bytes m))"
    by (simp only: sz writeToBytesOrThrow_bytes)
next
  assume ok: "Section_ok s"
  show "Section_sizeOrThrow s = Some (length (Section_bytes s))"
    by (rule encodesP_size[OF Section_encodes ok])
  show "Section_writeOrThrow s c = Some (writeOrThrow c (Section_bytes s))" for c
    by (simp add: encodesP_write[OF Section_encodes ok])
  show "frame_writeOrThrow s c =
      Some (writeOrThrow c (Section_kind s # uleb (int (length (Section_bytes s))) @ Section_bytes s))"
    for c
    by (simp add: encodesP_write[OF frame_encodes ok] frame_bytes_def sized_bytes_def)
next
  assume ok: "Instruction_ok i"
  show "Instruction_sizeOrThrow i = Some (length (Instruction_bytes i))"
    by (rule encodes_size[OF Instruction_encodes ok])
  show "Instruction_writeOrThrow i c = writeOrThrow c (Instruction_bytes i)" for c
    by (simp add: encodes_write[OF Instruction_encodes ok])
qed

theorem size_agrees_with_write_witness:
  "Module_ok (Module (Head 1) (Body [StartSection 3])) \<and>
   Module_sizeOrThrow (Module (Head 1) (Body [StartSection 3])) = Some 11 \<and>
   writeToBytesOrThrow (Module_sizeOrThrow (Module (Head 1) (Body [StartSection 3])))
       (Module_writeOrThrow (Module (Head 1) (Body [StartSection 3]))) =
     Some (Inr [0x00, 0x61, 0x73, 0x6D, 0x01, 0x00, 0x00, 0x00, 0x08, 0x01, 0x03]) \<and>
   Section_ok (FunctionSection [0, 300]) \<and>
   Section_sizeOrThrow (FunctionSection [0, 300]) = Some 4 \<and>
   frame_writeOrThrow (FunctionSection [0, 300]) (Cursor [0, 0, 0, 0, 0, 0]) =
     Some (Inr \<lparr>before = [0x03, 0x04, 0x02, 0x00, 0xAC, 0x02], after = []\<rparr>) \<and>
   Instruction_ok (Instruction 0x41 [I32 (- 128)]) \<and>
   Instruction_sizeOrThrow (Instruction 0x41 [I32 (- 128)]) = Some 3 \<and>
   Instruction_writeOrThrow (Instruction 0x41 [I32 (- 128)]) (Cursor [0, 0, 0]) =
     Inr \<lparr>before = [0x41, 0x80, 0x7F], after = []\<rparr>"
proof -
  have ok: "Module_ok (Module (Head 1) (Body [StartSection 3]))"
    "Section_ok (FunctionSection [0, 300])" "Instruction_ok (Instruction 0x41 [I32 (- 128)])"
    by code_simp+
  have bytes: "Module_bytes (Module (Head 1) (Body [StartSection 3])) =
      [0x00, 0x61, 0x73, 0x6D, 0x01, 0x00, 0x00, 0x00, 0x08, 0x01, 0x03]"
    "Section_bytes (FunctionSection [0, 300]) = [0x02, 0x00, 0xAC, 0x02]"
    "Section_kind (FunctionSection [0, 300]) = 0x03"
    "uleb 4 = [0x04]"
    "Instruction_bytes (Instruction 0x41 [I32 (- 128)]) = [0x41, 0x80, 0x7F]"
    by code_simp+
  have w: "writeOrThrow (Cursor [0, 0, 0, 0, 0, 0]) [0x03, 0x04, 0x02, 0x00, 0xAC, 0x02] =
      Inr \<lparr>before = [0x03, 0x04, 0x02, 0x00, 0xAC, 0x02], after = []\<rparr>"
    "writeOrThrow (Cursor [0, 0, 0]) [0x41, 0x80, 0x7F] = Inr \<lparr>before = [0x41, 0x80, 0x7F], after = []\<rparr>"
    by code_simp+
  note T = size_agrees_with_write[of "Module (Head 1) (Body [StartSection 3])"
      "FunctionSection [0, 300]" "Instruction 0x41 [I32 (- 128)]"]
  have m1: "Module_sizeOrThrow (Module (Head 1) (Body [StartSection 3])) =
      Some (length (Module_bytes (Module (Head 1) (Body [StartSection 3]))))"
    and m2: "writeToBytesOrThrow (Module_sizeOrThrow (Module (Head 1) (Body [StartSection 3])))
       (Module_writeOrThrow (Module (Head 1) (Body [StartSection 3]))) =
     Some (Inr (Module_bytes (Module (Head 1) (Body [StartSection 3]))))"
    and s1: "Section_sizeOrThrow (FunctionSection [0, 300]) =
      Some (length (Section_bytes (FunctionSection [0, 300])))"
    and s2: "frame_writeOrThrow (FunctionSection [0, 300]) (Cursor [0, 0, 0, 0, 0, 0]) =
      Some (writeOrThrow (Cursor [0, 0, 0, 0, 0, 0])
             (Section_kind (FunctionSection [0, 300]) #
              uleb (int (length (Section_bytes (FunctionSection [0, 300])))) @
              Section_bytes (FunctionSection [0, 300])))"
    and i1: "Instruction_sizeOrThrow (Instruction 0x41 [I32 (- 128)]) =
      Some (length (Instruction_bytes (Instruction 0x41 [I32 (- 128)])))"
    and i2: "Instruction_writeOrThrow (Instruction 0x41 [I32 (- 128)]) (Cursor [0, 0, 0]) =
      writeOrThrow (Cursor [0, 0, 0]) (Instruction_bytes (Instruction 0x41 [I32 (- 128)]))"
    using T ok by blast+
  have g1: "Module_sizeOrThrow (Module (Head 1) (Body [StartSection 3])) = Some 11"
    using m1 unfolding bytes by simp
  have g2: "writeToBytesOrThrow (Module_sizeOrThrow (Module (Head 1) (Body [StartSection 3])))
       (Module_writeOrThrow (Module (Head 1) (Body [StartSection 3]))) =
     Some (Inr [0x00, 0x61, 0x73, 0x6D, 0x01, 0x00, 0x00, 0x00, 0x08, 0x01, 0x03])"
    using m2 by (simp only: bytes)
  have g3: "Section_sizeOrThrow (FunctionSection [0, 300]) = Some 4"
    using s1 unfolding bytes by simp
  have g4: "frame_writeOrThrow (FunctionSection [0, 300]) (Cursor [0, 0, 0, 0, 0, 0]) =
     Some (Inr \<lparr>before = [0x03, 0x04, 0x02, 0x00, 0xAC, 0x02], after = []\<rparr>)"
    using s2 unfolding bytes by (simp add: w bytes)
  have g5: "Instruction_sizeOrThrow (Instruction 0x41 [I32 (- 128)]) = Some 3"
    using i1 unfolding bytes by simp
  have g6: "Instruction_writeOrThrow (Instruction 0x41 [I32 (- 128)]) (Cursor [0, 0, 0]) =
     Inr \<lparr>before = [0x41, 0x80, 0x7F], after = []\<rparr>"
    using i2 unfolding bytes by (simp add: w)
  show ?thesis using ok g1 g2 g3 g4 g5 g6 by blast
qed

section \<open>Decoding what was encoded\<close>

text \<open>
  C8. Every section frame whose kind byte is none of \<open>0x00\<close> to \<open>0x0d\<close> consists of the kind
  byte, a size prefix \<open>sz\<close> (any run that \<^verbatim>\<open>LEB128.U32.readOrThrow\<close> accepts, the shortest one or
  not) and as many payload bytes as the prefix says. \<^verbatim>\<open>Body.readOrThrow\<close> reads such a frame, on
  every cursor that stands at these bytes, to the \<^verbatim>\<open>UnknownSection\<close> with that kind and exactly
  these payload bytes, and stops behind them; conversely whatever it reads from a cursor
  whose next byte is such a kind is an \<^verbatim>\<open>UnknownSection\<close> of that kind whose payload is the
  bytes that follow the size prefix. \<^verbatim>\<open>Body.writeOrThrow\<close> writes for it, on every cursor, the
  kind byte, the bytes of the \<^verbatim>\<open>LEB128.U32\<close> of the payload's length (\<open>uleb\<close>, the shortest
  encoding) and the payload bytes unchanged; these bytes are read back to the same section.
\<close>

theorem unknown_section_verbatim:
  "0x0d < kind \<Longrightarrow>
     (leb_ok 0 sz \<and> leb_value sz = int (length data) \<and> leb_value sz \<le> 2 ^ 32 - 1 \<longrightarrow>
        frame_readOrThrow \<lparr>before = p, after = kind # sz @ data @ rest\<rparr> =
          Inr (UnknownSection kind data, \<lparr>before = p @ kind # sz @ data, after = rest\<rparr>)) \<and>
     (frame_readOrThrow c = Inr (s, c') \<and> after c = kind # xs \<longrightarrow>
        (\<exists>sz data. leb_ok 0 sz \<and> leb_value sz = int (length data) \<and>
           after c = kind # sz @ data @ after c' \<and> s = UnknownSection kind data)) \<and>
     Section_kind (UnknownSection kind data) = kind \<and>
     (\<forall>c. frame_writeOrThrow (UnknownSection kind data) c =
        Some (writeOrThrow c (kind # uleb (int (length data)) @ data))) \<and>
     (int (length data) \<le> 2 ^ 32 - 1 \<longrightarrow>
        frame_readOrThrow \<lparr>before = p, after = (kind # uleb (int (length data)) @ data) @ rest\<rparr> =
          Inr (UnknownSection kind data,
               \<lparr>before = p @ kind # uleb (int (length data)) @ data, after = rest\<rparr>))"
proof -
  assume k: "0x0d < kind"
  have rd: "frame_readOrThrow \<lparr>before = p, after = kind # sz @ data @ rest\<rparr> =
        Inr (UnknownSection kind data, \<lparr>before = p @ kind # sz @ data, after = rest\<rparr>)"
    if "leb_ok 0 sz" "leb_value sz = int (length data)" "leb_value sz \<le> 2 ^ 32 - 1"
    for sz p data rest
    using bytes_read_exact[OF that, of "p @ [kind]" rest]
    by (simp add: frame_readOrThrow_def Unknown_kind[OF k])
  have inv: "\<exists>sz data. leb_ok 0 sz \<and> leb_value sz = int (length data) \<and>
           after c = kind # sz @ data @ after c' \<and> s = UnknownSection kind data"
    if f: "frame_readOrThrow c = Inr (s, c')" and a: "after c = kind # xs"
  proof -
    from f obtain kind' c1 data where r8: "readUint8OrThrow c = Inr (kind', c1)"
      and b: "bytes_readOrThrow c1 = Inr (data, c')"
      and s: "Section_readFromBytesOrThrow kind' data = Inr s"
      by (auto simp: frame_readOrThrow_def andThen_Inr_iff)
    from r8 a have k': "kind' = kind" "after c1 = xs"
      by (auto simp: readUint8OrThrow_def)
    from b obtain sz where sz: "leb_ok 0 sz" "leb_value sz = int (length data)"
      "after c1 = sz @ data @ after c'"
      by (rule bytes_read_Inr)
    have "s = UnknownSection kind data" using s Unknown_kind[OF k, of data] by (simp add: k')
    then show ?thesis using sz a k' by auto
  qed
  have wr: "frame_writeOrThrow (UnknownSection kind data) c =
        Some (writeOrThrow c (kind # uleb (int (length data)) @ data))" for c
    using encodesP_write[OF frame_encodes, of "UnknownSection kind data"]
    by (simp add: frame_bytes_def sized_bytes_def)
  have rt: "frame_readOrThrow \<lparr>before = p, after = (kind # uleb (int (length data)) @ data) @ rest\<rparr> =
          Inr (UnknownSection kind data,
               \<lparr>before = p @ kind # uleb (int (length data)) @ data, after = rest\<rparr>)"
    if le: "int (length data) \<le> 2 ^ 32 - 1"
  proof -
    have ok: "leb_ok 0 (uleb (int (length data)))"
      using le by (intro uleb_leb_ok) simp_all
    have v: "leb_value (uleb (int (length data))) = int (length data)"
      using uleb_props[of "int (length data)"] by simp
    show ?thesis using rd[OF ok v] le v by simp
  qed
  show ?thesis using rd inv wr rt by simp
qed

theorem unknown_section_verbatim_witness:
  "frame_readOrThrow \<lparr>before = [], after = 0x0e # [0x83, 0x00] @ [1, 2, 3] @ [9]\<rparr> =
     Inr (UnknownSection 0x0e [1, 2, 3], \<lparr>before = [] @ 0x0e # [0x83, 0x00] @ [1, 2, 3], after = [9]\<rparr>) \<and>
   frame_writeOrThrow (UnknownSection 0x0e [1, 2, 3]) (Cursor [0, 0, 0, 0, 0]) =
     Some (Inr \<lparr>before = [0x0e, 0x03, 1, 2, 3], after = []\<rparr>) \<and>
   frame_readOrThrow \<lparr>before = [], after = [0x0e, 0x03, 1, 2, 3]\<rparr> =
     Inr (UnknownSection 0x0e [1, 2, 3], \<lparr>before = [0x0e, 0x03, 1, 2, 3], after = []\<rparr>)"
proof -
  have k: "(0x0d :: byte) < 0x0e" by simp
  have ok: "leb_ok 0 [0x83, 0x00]" by (simp add: leb_ok_def)
  have v: "leb_value [0x83, 0x00] = int (length [1, 2, 3 :: byte])"
    "leb_value [0x83, 0x00] \<le> 2 ^ 32 - 1" "int (length [1, 2, 3 :: byte]) \<le> 2 ^ 32 - 1"
    by simp_all
  have u: "uleb (int (length [1, 2, 3 :: byte])) = [0x03]" by code_simp
  have w: "writeOrThrow (Cursor [0, 0, 0, 0, 0]) [0x0e, 0x03, 1, 2, 3] =
      Inr \<lparr>before = [0x0e, 0x03, 1, 2, 3], after = []\<rparr>"
    by code_simp
  note T = unknown_section_verbatim[OF k, of "[0x83, 0x00]" "[1, 2, 3]" "[]" "[9]"]
  note T' = unknown_section_verbatim[OF k, of _ "[1, 2, 3]" "[]" "[]"]
  have a: "frame_readOrThrow \<lparr>before = [], after = 0x0e # [0x83, 0x00] @ [1, 2, 3] @ [9]\<rparr> =
     Inr (UnknownSection 0x0e [1, 2, 3], \<lparr>before = [] @ 0x0e # [0x83, 0x00] @ [1, 2, 3], after = [9]\<rparr>)"
    using T ok v by blast
  have b: "frame_writeOrThrow (UnknownSection 0x0e [1, 2, 3]) (Cursor [0, 0, 0, 0, 0]) =
      Some (writeOrThrow (Cursor [0, 0, 0, 0, 0]) (0x0e # uleb (int (length [1, 2, 3 :: byte])) @ [1, 2, 3]))"
    using T by blast
  have b': "frame_writeOrThrow (UnknownSection 0x0e [1, 2, 3]) (Cursor [0, 0, 0, 0, 0]) =
     Some (Inr \<lparr>before = [0x0e, 0x03, 1, 2, 3], after = []\<rparr>)"
    using b unfolding u by (simp add: w)
  have d: "frame_readOrThrow
        \<lparr>before = [], after = (0x0e # uleb (int (length [1, 2, 3 :: byte])) @ [1, 2, 3]) @ []\<rparr> =
      Inr (UnknownSection 0x0e [1, 2, 3],
           \<lparr>before = [] @ 0x0e # uleb (int (length [1, 2, 3 :: byte])) @ [1, 2, 3], after = []\<rparr>)"
    using T' v(3) by blast
  have d': "frame_readOrThrow \<lparr>before = [], after = [0x0e, 0x03, 1, 2, 3]\<rparr> =
     Inr (UnknownSection 0x0e [1, 2, 3], \<lparr>before = [0x0e, 0x03, 1, 2, 3], after = []\<rparr>)"
    using d unfolding u by simp
  show ?thesis using a b' d' by blast
qed

text \<open>
  C2 (as the specification states it: refuted). A mutation of a decoded module need not
  survive encoding and decoding. \<^verbatim>\<open>Head.writeOrThrow\<close> writes whatever \<^verbatim>\<open>this.version\<close> holds and
  \<^verbatim>\<open>Head.readOrThrow\<close> throws on every version but 1: the module decoded from
  \<open>00 61 73 6D 01 00 00 00\<close>, with its version set to 2, is written as
  \<open>00 61 73 6D 02 00 00 00\<close>, which does not decode. With the \<^verbatim>\<open>funcidx\<close> of a decoded start
  section set to \<open>- 1\<close>, \<^verbatim>\<open>Module.sizeOrThrow\<close> does not return. With the \<^verbatim>\<open>subtypes\<close> of a decoded
  type descriptor of prefix \<open>0x60\<close> set to \<open>[7]\<close>, the module is written as the bytes it was
  decoded from, which decode to the module with no subtypes.
\<close>

theorem mutation_breaks_round_trip:
  "Module_readOrThrow (Cursor [0x00, 0x61, 0x73, 0x6D, 0x01, 0x00, 0x00, 0x00]) =
     Inr (Module (Head 1) (Body []),
          \<lparr>before = [0x00, 0x61, 0x73, 0x6D, 0x01, 0x00, 0x00, 0x00], after = []\<rparr>) \<and>
   writeToBytesOrThrow (Module_sizeOrThrow (Module (Head 2) (Body [])))
       (Module_writeOrThrow (Module (Head 2) (Body []))) =
     Some (Inr [0x00, 0x61, 0x73, 0x6D, 0x02, 0x00, 0x00, 0x00]) \<and>
   readFromBytesOrThrow Module_readOrThrow [0x00, 0x61, 0x73, 0x6D, 0x02, 0x00, 0x00, 0x00] =
     Inl UnsupportedVersion \<and>
   readFromBytesOrThrow Module_readOrThrow
       [0x00, 0x61, 0x73, 0x6D, 0x01, 0x00, 0x00, 0x00, 0x08, 0x01, 0x03] =
     Inr (Module (Head 1) (Body [StartSection 3])) \<and>
   Module_sizeOrThrow (Module (Head 1) (Body [StartSection (- 1)])) = None \<and>
   readFromBytesOrThrow Module_readOrThrow
       [0x00, 0x61, 0x73, 0x6D, 0x01, 0x00, 0x00, 0x00, 0x01, 0x04, 0x01, 0x60, 0x00, 0x00] =
     Inr (Module (Head 1) (Body [TypeSection [TypeDescriptor 0x60 [] (FuncType [] [])]])) \<and>
   writeToBytesOrThrow
       (Module_sizeOrThrow (Module (Head 1) (Body [TypeSection [TypeDescriptor 0x60 [7] (FuncType [] [])]])))
       (Module_writeOrThrow (Module (Head 1) (Body [TypeSection [TypeDescriptor 0x60 [7] (FuncType [] [])]]))) =
     Some (Inr [0x00, 0x61, 0x73, 0x6D, 0x01, 0x00, 0x00, 0x00, 0x01, 0x04, 0x01, 0x60, 0x00, 0x00])"
  by code_simp

text \<open>
  C2 (amended). For every module \<open>m\<close> that \<^verbatim>\<open>Module.readOrThrow\<close> returns, from whatever bytes
  and cursor, and so for every mutated module that is again such a value: its version is 1;
  \<^verbatim>\<open>Module.sizeOrThrow\<close> returns; \<^verbatim>\<open>Module.writeOrThrow\<close> writes, on every cursor, the bytes
  \<open>Module_bytes m\<close>, which are computed from the fields of \<open>m\<close> alone and not from the bytes it
  was decoded from; writing into a buffer of \<^verbatim>\<open>sizeOrThrow()\<close> bytes fills it with them; and
  decoding them, on every cursor that holds them, returns \<open>m\<close> again with no byte left. They
  are at most as many as the bytes \<open>m\<close> was decoded from.
\<close>

theorem decoded_module_round_trip:
  "Module_readOrThrow c = Inr (m, c') \<Longrightarrow>
     version (head m) = 1 \<and>
     Module_sizeOrThrow m = Some (length (Module_bytes m)) \<and>
     (\<forall>c. Module_writeOrThrow m c = Some (writeOrThrow c (Module_bytes m))) \<and>
     writeToBytesOrThrow (Module_sizeOrThrow m) (Module_writeOrThrow m) = Some (Inr (Module_bytes m)) \<and>
     (\<forall>p. Module_readOrThrow \<lparr>before = p, after = Module_bytes m\<rparr> =
        Inr (m, \<lparr>before = p @ Module_bytes m, after = []\<rparr>)) \<and>
     readFromBytesOrThrow Module_readOrThrow (Module_bytes m) = Inr m \<and>
     length (Module_bytes m) \<le> length (after c)"
proof -
  assume r: "Module_readOrThrow c = Inr (m, c')"
  from Module_decodes[OF r] have ok: "Module_ok m"
    and ra: "reads_all Module_readOrThrow (Module_bytes m) m"
    and le: "length (Module_bytes m) \<le> length (after c)"
    by simp_all
  from r obtain h c1 b where "Head_readOrThrow c = Inr (h, c1)" and m: "m = Module h b"
    by (auto simp: Module_readOrThrow_def andThen_Inr_iff)
  then have v: "version (head m) = 1" using Head_read_Inr by fastforce
  have sz: "Module_sizeOrThrow m = Some (length (Module_bytes m))"
    by (rule encodesP_size[OF Module_encodes ok])
  have wr: "Module_writeOrThrow m = (\<lambda>c. Some (writeOrThrow c (Module_bytes m)))"
    by (rule encodesP_write[OF Module_encodes ok])
  have wb: "writeToBytesOrThrow (Module_sizeOrThrow m) (Module_writeOrThrow m) =
      Some (Inr (Module_bytes m))"
    by (simp only: sz wr writeToBytesOrThrow_bytes)
  have rc: "\<forall>p. Module_readOrThrow \<lparr>before = p, after = Module_bytes m\<rparr> =
        Inr (m, \<lparr>before = p @ Module_bytes m, after = []\<rparr>)"
    using ra by (simp add: reads_all_def)
  then have "Module_readOrThrow (Cursor (Module_bytes m)) =
      Inr (m, \<lparr>before = Module_bytes m, after = []\<rparr>)"
    by (simp add: Cursor_def)
  then have rb: "readFromBytesOrThrow Module_readOrThrow (Module_bytes m) = Inr m"
    by (simp add: readFromBytesOrThrow_def remaining_def)
  show ?thesis using v sz wr wb rc rb le by simp
qed

theorem decoded_module_round_trip_witness:
  "Module_readOrThrow
       (Cursor [0x00, 0x61, 0x73, 0x6D, 0x01, 0x00, 0x00, 0x00, 0x03, 0x83, 0x00, 0x81, 0x00, 0x05]) =
     Inr (Module (Head 1) (Body [FunctionSection [5]]),
          \<lparr>before = [0x00, 0x61, 0x73, 0x6D, 0x01, 0x00, 0x00, 0x00, 0x03, 0x83, 0x00, 0x81, 0x00, 0x05],
             after = []\<rparr>) \<and>
   writeToBytesOrThrow (Module_sizeOrThrow (Module (Head 1) (Body [FunctionSection [5]])))
       (Module_writeOrThrow (Module (Head 1) (Body [FunctionSection [5]]))) =
     Some (Inr [0x00, 0x61, 0x73, 0x6D, 0x01, 0x00, 0x00, 0x00, 0x03, 0x02, 0x01, 0x05]) \<and>
   readFromBytesOrThrow Module_readOrThrow
       [0x00, 0x61, 0x73, 0x6D, 0x01, 0x00, 0x00, 0x00, 0x03, 0x02, 0x01, 0x05] =
     Inr (Module (Head 1) (Body [FunctionSection [5]]))"
proof -
  have d: "Module_readOrThrow
       (Cursor [0x00, 0x61, 0x73, 0x6D, 0x01, 0x00, 0x00, 0x00, 0x03, 0x83, 0x00, 0x81, 0x00, 0x05]) =
     Inr (Module (Head 1) (Body [FunctionSection [5]]),
          \<lparr>before = [0x00, 0x61, 0x73, 0x6D, 0x01, 0x00, 0x00, 0x00, 0x03, 0x83, 0x00, 0x81, 0x00, 0x05],
             after = []\<rparr>)"
    by code_simp
  have b: "Module_bytes (Module (Head 1) (Body [FunctionSection [5]])) =
      [0x00, 0x61, 0x73, 0x6D, 0x01, 0x00, 0x00, 0x00, 0x03, 0x02, 0x01, 0x05]"
    by code_simp
  note T = decoded_module_round_trip[OF d]
  have w: "writeToBytesOrThrow (Module_sizeOrThrow (Module (Head 1) (Body [FunctionSection [5]])))
       (Module_writeOrThrow (Module (Head 1) (Body [FunctionSection [5]]))) =
     Some (Inr (Module_bytes (Module (Head 1) (Body [FunctionSection [5]]))))"
    and r: "readFromBytesOrThrow Module_readOrThrow
       (Module_bytes (Module (Head 1) (Body [FunctionSection [5]]))) =
     Inr (Module (Head 1) (Body [FunctionSection [5]]))"
    using T by blast+
  show ?thesis using d w r unfolding b by blast
qed

end
